theory Spec2Isabelle
  imports Complex_Main "HOL-Library.Word" "HOL-Library.Multiset"
begin

unbundle bit_operations_syntax

section \<open>Cubie model (core/cubie.ts)\<close>

text \<open>
  A cube is four arrays of small non-negative numbers.  The interface documents their
  shape: \<open>cPerm\<close> has length 8 and values 0-7, \<open>cOri\<close> length 8 and values 0-2,
  \<open>ePerm\<close> length 12 and values 0-11, \<open>eOri\<close> length 12 and values 0-1.
\<close>

record Cube =
  cPerm :: "nat list"
  cOri :: "nat list"
  ePerm :: "nat list"
  eOri :: "nat list"

record MoveTable =
  cornerPerm :: "nat list"
  cornerOriDelta :: "nat list"
  edgePerm :: "nat list"
  edgeOriDelta :: "nat list"

text \<open>The shape the \<open>Cube\<close> interface documents for its four arrays.\<close>

definition cubeShape :: "Cube \<Rightarrow> bool" where
  "cubeShape cube \<longleftrightarrow>
     length (cPerm cube) = 8 \<and> list_all (\<lambda>v. v < 8) (cPerm cube) \<and>
     length (cOri cube) = 8 \<and> list_all (\<lambda>v. v < 3) (cOri cube) \<and>
     length (ePerm cube) = 12 \<and> list_all (\<lambda>v. v < 12) (ePerm cube) \<and>
     length (eOri cube) = 12 \<and> list_all (\<lambda>v. v < 2) (eOri cube)"

definition solvedCube :: Cube where
  "solvedCube =
     \<lparr>cPerm = [0, 1, 2, 3, 4, 5, 6, 7],
      cOri = [0, 0, 0, 0, 0, 0, 0, 0],
      ePerm = [0, 1, 2, 3, 4, 5, 6, 7, 8, 9, 10, 11],
      eOri = [0, 0, 0, 0, 0, 0, 0, 0, 0, 0, 0, 0]\<rparr>"

text \<open>
  \<open>applyMove\<close> allocates four fresh arrays and fills slot \<open>i\<close> from the slot the move
  names as its source; the loops run over the fixed ranges 0..7 and 0..11.
\<close>

definition applyMove :: "Cube \<Rightarrow> MoveTable \<Rightarrow> Cube" where
  "applyMove cube move =
     \<lparr>cPerm = map (\<lambda>i. cPerm cube ! (cornerPerm move ! i)) [0..<8],
      cOri = map (\<lambda>i. (cOri cube ! (cornerPerm move ! i) + cornerOriDelta move ! i) mod 3)
               [0..<8],
      ePerm = map (\<lambda>i. ePerm cube ! (edgePerm move ! i)) [0..<12],
      eOri = map (\<lambda>i. (eOri cube ! (edgePerm move ! i)) XOR (edgeOriDelta move ! i))
               [0..<12]\<rparr>"

definition composeMoves :: "MoveTable \<Rightarrow> MoveTable \<Rightarrow> MoveTable" where
  "composeMoves move1 move2 =
     \<lparr>cornerPerm = map (\<lambda>i. cornerPerm move2 ! (cornerPerm move1 ! i)) [0..<8],
      cornerOriDelta =
        map (\<lambda>i. (cornerOriDelta move1 ! i + cornerOriDelta move2 ! (cornerPerm move1 ! i)) mod 3)
          [0..<8],
      edgePerm = map (\<lambda>i. edgePerm move2 ! (edgePerm move1 ! i)) [0..<12],
      edgeOriDelta =
        map (\<lambda>i. (edgeOriDelta move1 ! i) XOR (edgeOriDelta move2 ! (edgePerm move1 ! i)))
          [0..<12]\<rparr>"

text \<open>
  \<open>invertMove\<close> writes slot \<open>target = perm[i]\<close> of two fresh arrays for \<open>i = 0, 1, ...\<close>
  in turn.  The fresh arrays start as \<open>new Array(n)\<close>; every slot is overwritten when the
  move's permutation is one, so the initial filling (here 0) is never read.
\<close>

definition invertStep ::
  "nat list \<Rightarrow> (nat \<Rightarrow> nat) \<Rightarrow> nat list \<Rightarrow> nat list \<times> nat list \<Rightarrow> nat \<Rightarrow> nat list \<times> nat list" where
  "invertStep perm neg delta acc i =
     (let target = perm ! i
      in ((fst acc)[target := i], (snd acc)[target := neg (delta ! i)]))"

definition invertMove :: "MoveTable \<Rightarrow> MoveTable" where
  "invertMove move =
     (let c = foldl (invertStep (cornerPerm move) (\<lambda>d. (3 - d) mod 3) (cornerOriDelta move))
                (replicate 8 0, replicate 8 0) [0..<8];
          e = foldl (invertStep (edgePerm move) (\<lambda>d. d) (edgeOriDelta move))
                (replicate 12 0, replicate 12 0) [0..<12]
      in \<lparr>cornerPerm = fst c, cornerOriDelta = snd c, edgePerm = fst e, edgeOriDelta = snd e\<rparr>)"

definition cubesEqual :: "Cube \<Rightarrow> Cube \<Rightarrow> bool" where
  "cubesEqual cube1 cube2 \<longleftrightarrow>
     cPerm cube1 = cPerm cube2 \<and> cOri cube1 = cOri cube2 \<and>
     ePerm cube1 = ePerm cube2 \<and> eOri cube1 = eOri cube2"

definition isSolved :: "Cube \<Rightarrow> bool" where
  "isSolved cube = cubesEqual cube solvedCube"

section \<open>The move set (core/moves.ts)\<close>

text \<open>
  The six generators, written out from \<open>createUMove\<close> .. \<open>createBMove\<close> with the
  \<open>Corner\<close> and \<open>Edge\<close> names replaced by their numbers (URF = 0, UFL = 1, ULB = 2,
  UBR = 3, DFR = 4, DLF = 5, DBL = 6, DRB = 7; UR = 0, UF = 1, UL = 2, UB = 3, DR = 4,
  DF = 5, DL = 6, DB = 7, FR = 8, FL = 9, BL = 10, BR = 11).
\<close>

definition createUMove :: MoveTable where
  "createUMove =
     \<lparr>cornerPerm = [3, 0, 1, 2, 4, 5, 6, 7],
      cornerOriDelta = [0, 0, 0, 0, 0, 0, 0, 0],
      edgePerm = [3, 0, 1, 2, 4, 5, 6, 7, 8, 9, 10, 11],
      edgeOriDelta = [0, 0, 0, 0, 0, 0, 0, 0, 0, 0, 0, 0]\<rparr>"

definition createRMove :: MoveTable where
  "createRMove =
     \<lparr>cornerPerm = [4, 1, 2, 0, 7, 5, 6, 3],
      cornerOriDelta = [2, 0, 0, 1, 1, 0, 0, 2],
      edgePerm = [8, 1, 2, 3, 11, 5, 6, 7, 4, 9, 10, 0],
      edgeOriDelta = [0, 0, 0, 0, 0, 0, 0, 0, 0, 0, 0, 0]\<rparr>"

definition createFMove :: MoveTable where
  "createFMove =
     \<lparr>cornerPerm = [1, 5, 2, 3, 0, 4, 6, 7],
      cornerOriDelta = [1, 2, 0, 0, 2, 1, 0, 0],
      edgePerm = [0, 9, 2, 3, 4, 8, 6, 7, 1, 5, 10, 11],
      edgeOriDelta = [0, 1, 0, 0, 0, 1, 0, 0, 1, 1, 0, 0]\<rparr>"

definition createDMove :: MoveTable where
  "createDMove =
     \<lparr>cornerPerm = [0, 1, 2, 3, 5, 6, 7, 4],
      cornerOriDelta = [0, 0, 0, 0, 0, 0, 0, 0],
      edgePerm = [0, 1, 2, 3, 5, 6, 7, 4, 8, 9, 10, 11],
      edgeOriDelta = [0, 0, 0, 0, 0, 0, 0, 0, 0, 0, 0, 0]\<rparr>"

definition createLMove :: MoveTable where
  "createLMove =
     \<lparr>cornerPerm = [0, 2, 6, 3, 4, 1, 5, 7],
      cornerOriDelta = [0, 1, 2, 0, 0, 2, 1, 0],
      edgePerm = [0, 1, 10, 3, 4, 5, 9, 7, 8, 2, 6, 11],
      edgeOriDelta = [0, 0, 0, 0, 0, 0, 0, 0, 0, 0, 0, 0]\<rparr>"

definition createBMove :: MoveTable where
  "createBMove =
     \<lparr>cornerPerm = [0, 1, 3, 6, 4, 5, 7, 2],
      cornerOriDelta = [0, 0, 1, 2, 0, 0, 2, 1],
      edgePerm = [0, 1, 2, 10, 4, 5, 6, 11, 8, 9, 3, 7],
      edgeOriDelta = [0, 0, 0, 1, 0, 0, 0, 1, 0, 0, 1, 1]\<rparr>"

datatype MoveKey =
  Key_U | Key_U2 | Key_Up | Key_R | Key_R2 | Key_Rp | Key_F | Key_F2 | Key_Fp |
  Key_D | Key_D2 | Key_Dp | Key_L | Key_L2 | Key_Lp | Key_B | Key_B2 | Key_Bp

fun ALL_MOVES :: "MoveKey \<Rightarrow> MoveTable" where
  "ALL_MOVES Key_U = createUMove"
| "ALL_MOVES Key_U2 = composeMoves createUMove createUMove"
| "ALL_MOVES Key_Up = invertMove createUMove"
| "ALL_MOVES Key_R = createRMove"
| "ALL_MOVES Key_R2 = composeMoves createRMove createRMove"
| "ALL_MOVES Key_Rp = invertMove createRMove"
| "ALL_MOVES Key_F = createFMove"
| "ALL_MOVES Key_F2 = composeMoves createFMove createFMove"
| "ALL_MOVES Key_Fp = invertMove createFMove"
| "ALL_MOVES Key_D = createDMove"
| "ALL_MOVES Key_D2 = composeMoves createDMove createDMove"
| "ALL_MOVES Key_Dp = invertMove createDMove"
| "ALL_MOVES Key_L = createLMove"
| "ALL_MOVES Key_L2 = composeMoves createLMove createLMove"
| "ALL_MOVES Key_Lp = invertMove createLMove"
| "ALL_MOVES Key_B = createBMove"
| "ALL_MOVES Key_B2 = composeMoves createBMove createBMove"
| "ALL_MOVES Key_Bp = invertMove createBMove"

definition MOVE_KEYS :: "MoveKey list" where
  "MOVE_KEYS =
     [Key_U, Key_U2, Key_Up, Key_R, Key_R2, Key_Rp, Key_F, Key_F2, Key_Fp,
      Key_D, Key_D2, Key_Dp, Key_L, Key_L2, Key_Lp, Key_B, Key_B2, Key_Bp]"

definition getMoveByKey :: "MoveKey \<Rightarrow> MoveTable" where
  "getMoveByKey key = ALL_MOVES key"

text \<open>Every caller passes an index in 0..17.\<close>

definition getMoveByIndex :: "nat \<Rightarrow> MoveTable" where
  "getMoveByIndex index = ALL_MOVES (MOVE_KEYS ! index)"

section \<open>Validation (core/cubie.ts)\<close>

text \<open>
  \<open>isValidPermutation\<close> walks the array with a \<open>seen\<close> table and fails on the first
  value that is out of range or repeated.
\<close>

fun validPermLoop :: "nat \<Rightarrow> bool list \<Rightarrow> nat list \<Rightarrow> bool" where
  "validPermLoop n seen [] = True"
| "validPermLoop n seen (val # vals) =
     (if val \<ge> n \<or> seen ! val then False else validPermLoop n (seen[val := True]) vals)"

definition isValidPermutation :: "nat list \<Rightarrow> nat \<Rightarrow> bool" where
  "isValidPermutation perm n =
     (if length perm \<noteq> n then False else validPermLoop n (replicate n False) perm)"

text \<open>
  The inner \<open>while (!seen[j])\<close> loop of \<open>parityOfPermutation\<close>: it follows the cycle
  through \<open>j\<close> until it meets a slot already seen.  It ends because every round marks
  one more slot.  The guard \<open>j < length seen\<close> holds for every array that passed
  \<open>isValidPermutation\<close>, the only ones \<open>isValidCube\<close> hands over.
\<close>

lemma unseen_update_less:
  "j < length seen \<Longrightarrow> \<not> seen ! j \<Longrightarrow>
   length (filter (\<lambda>b. \<not> b) (seen[j := True])) < length (filter (\<lambda>b. \<not> b) seen)"
proof (induction seen arbitrary: j)
  case Nil
  then show ?case by simp
next
  case (Cons b bs)
  show ?case
  proof (cases j)
    case 0
    with Cons.prems show ?thesis by simp
  next
    case (Suc i)
    with Cons.prems have "length (filter (\<lambda>b. \<not> b) (bs[i := True])) < length (filter (\<lambda>b. \<not> b) bs)"
      by (intro Cons.IH) simp_all
    with Suc show ?thesis by simp
  qed
qed

function traceCycle :: "nat list \<Rightarrow> bool list \<Rightarrow> nat \<Rightarrow> nat \<Rightarrow> bool list \<times> nat" where
  "traceCycle perm seen j cycleLength =
     (if j < length seen \<and> \<not> seen ! j
      then traceCycle perm (seen[j := True]) (perm ! j) (cycleLength + 1)
      else (seen, cycleLength))"
  by pat_completeness auto
termination
  by (relation "measure (\<lambda>(perm, seen, j, cycleLength). length (filter (\<lambda>b. \<not> b) seen))")
    (simp_all add: unseen_update_less)

declare traceCycle.simps [simp del]

definition parityStep :: "nat list \<Rightarrow> nat \<times> bool list \<Rightarrow> nat \<Rightarrow> nat \<times> bool list" where
  "parityStep perm acc i =
     (if \<not> snd acc ! i
      then let traced = traceCycle perm (snd acc) i 0;
               cycleLength = snd traced
           in (if cycleLength > 0 then fst acc XOR ((cycleLength + 1) AND 1) else fst acc,
               fst traced)
      else acc)"

definition parityOfPermutation :: "nat list \<Rightarrow> nat" where
  "parityOfPermutation perm =
     fst (foldl (parityStep perm) (0, replicate (length perm) False) [0..<length perm])"

definition isValidCube :: "Cube \<Rightarrow> bool" where
  "isValidCube cube =
     (if \<not> isValidPermutation (cPerm cube) 8 then False
      else if \<not> isValidPermutation (ePerm cube) 12 then False
      else if parityOfPermutation (cPerm cube) \<noteq> parityOfPermutation (ePerm cube) then False
      else if sum_list (cOri cube) mod 3 \<noteq> 0 then False
      else if sum_list (eOri cube) mod 2 \<noteq> 0 then False
      else if list_ex (\<lambda>ori. ori > 2) (cOri cube) then False
      else if list_ex (\<lambda>ori. ori > 1) (eOri cube) then False
      else True)"

section \<open>Coordinates (solver/kociemba/coordinates.ts)\<close>

definition EO_SIZE :: nat where "EO_SIZE = 2048"
definition CO_SIZE :: nat where "CO_SIZE = 2187"
definition ESLICE_SIZE :: nat where "ESLICE_SIZE = 495"
definition CP_SIZE :: nat where "CP_SIZE = 40320"
definition UDEP_SIZE :: nat where "UDEP_SIZE = 40320"
definition EP_SIZE :: nat where "EP_SIZE = 24"

definition E_EDGES :: "nat list" where
  "E_EDGES = [8, 9, 10, 11]"

subsection \<open>Phase 1\<close>

definition getEdgeOrientation :: "Cube \<Rightarrow> nat" where
  "getEdgeOrientation cube =
     foldl (\<lambda>coord i. (push_bit 1 coord) OR (eOri cube ! i)) 0 [0..<11]"

text \<open>
  The setters write into the cube they are given; the model returns the cube after the
  writes.  The loop state is the array, the running \<open>sum\<close> and the shrinking \<open>coord\<close>.
\<close>

definition setEOStep :: "nat list \<times> nat \<times> nat \<Rightarrow> nat \<Rightarrow> nat list \<times> nat \<times> nat" where
  "setEOStep st i =
     (case st of (arr, acc, coord) \<Rightarrow>
        let arr' = arr[i := coord AND 1]
        in (arr', acc XOR (arr' ! i), drop_bit 1 coord))"

definition setEdgeOrientation :: "Cube \<Rightarrow> nat \<Rightarrow> Cube" where
  "setEdgeOrientation cube coord =
     (case foldl setEOStep (eOri cube, 0, coord) (rev [0..<11]) of
        (arr, acc, c) \<Rightarrow> cube\<lparr>eOri := arr[11 := acc]\<rparr>)"

definition getCornerOrientation :: "Cube \<Rightarrow> nat" where
  "getCornerOrientation cube = foldl (\<lambda>coord i. coord * 3 + cOri cube ! i) 0 [0..<7]"

definition setCOStep :: "nat list \<times> nat \<times> nat \<Rightarrow> nat \<Rightarrow> nat list \<times> nat \<times> nat" where
  "setCOStep st i =
     (case st of (arr, acc, coord) \<Rightarrow>
        let arr' = arr[i := coord mod 3]
        in (arr', (acc + arr' ! i) mod 3, coord div 3))"

definition setCornerOrientation :: "Cube \<Rightarrow> nat \<Rightarrow> Cube" where
  "setCornerOrientation cube coord =
     (case foldl setCOStep (cOri cube, 0, coord) (rev [0..<7]) of
        (arr, acc, c) \<Rightarrow> cube\<lparr>cOri := arr[7 := (3 - acc) mod 3]\<rparr>)"

text \<open>
  \<open>binomial\<close> multiplies and divides in floating point and floors at the end; the model
  keeps the running product as a rational.  \<open>k\<close> can be negative: the callers count
  \<open>r\<close> down past 0.
\<close>

definition binomial :: "int \<Rightarrow> int \<Rightarrow> int" where
  "binomial n k =
     (if k > n \<or> k < 0 then 0
      else if k = 0 \<or> k = n then 1
      else \<lfloor>foldl (\<lambda>result i. (result * of_int (n - int i)) / of_int (int i + 1))
              (1::rat) [0..<nat k]\<rfloor>)"

definition getESliceStep :: "Cube \<Rightarrow> int \<times> int \<Rightarrow> nat \<Rightarrow> int \<times> int" where
  "getESliceStep cube st i =
     (case st of (coord, r) \<Rightarrow>
        if ePerm cube ! i \<ge> 8 then (coord + binomial (int i) r, r - 1) else (coord, r))"

definition getESlice :: "Cube \<Rightarrow> int" where
  "getESlice cube = 494 - fst (foldl (getESliceStep cube) (0, 4) (rev [0..<12]))"

definition setESliceStep :: "nat list \<times> int \<times> int \<Rightarrow> nat \<Rightarrow> nat list \<times> int \<times> int" where
  "setESliceStep st i =
     (case st of (arr, r, c) \<Rightarrow>
        if c \<ge> binomial (int i) r
        then (arr[i := nat (8 + (4 - r))], r - 1, c - binomial (int i) r)
        else (arr[i := 0], r, c))"

definition setESlice :: "Cube \<Rightarrow> int \<Rightarrow> Cube" where
  "setESlice cube rawCoord =
     (let coord = 494 - rawCoord;
          cleared = foldl (\<lambda>arr i. arr[i := 0]) (ePerm cube) [0..<12]
      in case foldl setESliceStep (cleared, 4, coord) (rev [0..<12]) of
           (arr, r, c) \<Rightarrow> cube\<lparr>ePerm := arr\<rparr>)"

subsection \<open>Lehmer codes\<close>

text \<open>
  \<open>permutationToIndex\<close>: for each position \<open>i\<close> the rank is the number of later entries
  smaller than \<open>perm[i]\<close>, weighted by \<open>(n - 1 - i)!\<close>; the source keeps the weight in
  \<open>factorial\<close>, dividing it by \<open>n - i\<close> each round.
\<close>

fun permutationToIndex :: "'a::linorder list \<Rightarrow> nat" where
  "permutationToIndex [] = 0"
| "permutationToIndex (x # xs) =
     length (filter (\<lambda>y. y < x) xs) * fact (length xs) + permutationToIndex xs"

text \<open>
  \<open>indexToPermutation\<close>: \<open>perm\<close> starts as the identity; round \<open>i\<close> moves the entry at
  \<open>i + rank\<close> to position \<open>i\<close> and shifts the entries between one place right.  The model
  carries the not yet placed suffix \<open>perm[i..]\<close> and the number of rounds left.  For
  \<open>index < n!\<close> the rank always lies inside that suffix.
\<close>

fun indexToPermLoop :: "nat \<Rightarrow> nat \<Rightarrow> nat list \<Rightarrow> nat list" where
  "indexToPermLoop 0 index rest = []"
| "indexToPermLoop (Suc m) index rest =
     (let factorial = fact m;
          rank = index div factorial
      in (rest ! rank) #
         indexToPermLoop m (index mod factorial) (take rank rest @ drop (Suc rank) rest))"

definition indexToPermutation :: "nat \<Rightarrow> nat \<Rightarrow> nat list" where
  "indexToPermutation index n = indexToPermLoop n index [0..<n]"

subsection \<open>Phase 2\<close>

definition getCornerPermutation :: "Cube \<Rightarrow> nat" where
  "getCornerPermutation cube = permutationToIndex (cPerm cube)"

definition setCornerPermutation :: "Cube \<Rightarrow> nat \<Rightarrow> Cube" where
  "setCornerPermutation cube coord = cube\<lparr>cPerm := indexToPermutation coord 8\<rparr>"

definition getUDEdgePermutation :: "Cube \<Rightarrow> nat" where
  "getUDEdgePermutation cube = permutationToIndex (take 8 (ePerm cube))"

definition setUDEdgePermutation :: "Cube \<Rightarrow> nat \<Rightarrow> Cube" where
  "setUDEdgePermutation cube coord =
     (let perm = indexToPermutation coord 8
      in cube\<lparr>ePerm := foldl (\<lambda>arr i. arr[i := perm ! i]) (ePerm cube) [0..<8]\<rparr>)"

definition getESlicePermutation :: "Cube \<Rightarrow> nat" where
  "getESlicePermutation cube =
     permutationToIndex (map (\<lambda>i. int (ePerm cube ! (8 + i)) - 8) [0..<4])"

definition setESlicePermutation :: "Cube \<Rightarrow> nat \<Rightarrow> Cube" where
  "setESlicePermutation cube coord =
     (let perm = indexToPermutation coord 4
      in cube\<lparr>ePerm := foldl (\<lambda>arr i. arr[8 + i := E_EDGES ! (perm ! i)]) (ePerm cube) [0..<4]\<rparr>)"

text \<open>
  A read \<open>xs[i]\<close> past the end of a JavaScript array gives \<open>undefined\<close>, which equals no
  number.
\<close>

definition js_nth :: "'a list \<Rightarrow> nat \<Rightarrow> 'a option" where
  "js_nth xs i = (if i < length xs then Some (xs ! i) else None)"

text \<open>
  \<open>isInG1\<close>: every edge orientation is 0 and each of the edges 8..11 occurs among the
  entries of slots 8..11.
\<close>

definition isInG1 :: "Cube \<Rightarrow> bool" where
  "isInG1 cube =
     (if \<not> list_all (\<lambda>i. js_nth (eOri cube) i = Some 0) [0..<12] then False
      else let eSlicePositions = [8, 9, 10, 11];
               edgesInESlice = map (\<lambda>pos. js_nth (ePerm cube) pos) eSlicePositions
           in list_all (\<lambda>edge. Some edge \<in> set edgesInESlice) E_EDGES)"

text \<open>
  Coordinates travel through the search as JavaScript numbers that may be \<open>undefined\<close>
  (a table read outside the table): \<open>None\<close> stands for \<open>undefined\<close>.
\<close>

type_synonym coordinate = "int option"

record Phase1Coord =
  eo :: coordinate
  co :: coordinate
  eslice :: coordinate

record Phase2Coord =
  cp :: coordinate
  udep :: coordinate
  ep :: coordinate

definition getPhase1Coord :: "Cube \<Rightarrow> Phase1Coord" where
  "getPhase1Coord cube =
     \<lparr>eo = Some (int (getEdgeOrientation cube)),
      co = Some (int (getCornerOrientation cube)),
      eslice = Some (getESlice cube)\<rparr>"

definition getPhase2Coord :: "Cube \<Rightarrow> Phase2Coord" where
  "getPhase2Coord cube =
     \<lparr>cp = Some (int (getCornerPermutation cube)),
      udep = Some (int (getUDEdgePermutation cube)),
      ep = Some (int (getESlicePermutation cube))\<rparr>"

subsection \<open>Coordinate move tables\<close>

text \<open>
  \<open>buildCoordinateMoveTable\<close> fills \<open>moveTable[moveIdx][coord]\<close> for every coordinate
  value and every move: a fresh solved cube is set to the coordinate, the move applied,
  the coordinate read back.  Every cell is written once, from its own fresh cube.
\<close>

definition buildCoordinateMoveTable ::
  "nat \<Rightarrow> (Cube \<Rightarrow> int) \<Rightarrow> (Cube \<Rightarrow> nat \<Rightarrow> Cube) \<Rightarrow> int list list" where
  "buildCoordinateMoveTable sz getCoord setCoord =
     map (\<lambda>moveIdx.
            map (\<lambda>coord. getCoord (applyMove (setCoord solvedCube coord)
                                     (ALL_MOVES (MOVE_KEYS ! moveIdx))))
              [0..<sz])
       [0..<18]"

text \<open>A pruning table: a byte per coordinate value, its size and its name.\<close>

record PruningTable =
  tdata :: "nat list"
  tsize :: nat
  tname :: string

text \<open>The module-level state: six move tables and eight pruning tables.\<close>

record Globals =
  EO_MOVE_TABLE :: "int list list"
  CO_MOVE_TABLE :: "int list list"
  ESLICE_MOVE_TABLE :: "int list list"
  CP_MOVE_TABLE :: "int list list"
  UDEP_MOVE_TABLE :: "int list list"
  EP_MOVE_TABLE :: "int list list"
  EOPruningTable :: PruningTable
  COPruningTable :: PruningTable
  ESlicePruningTable :: PruningTable
  CPPruningTable :: PruningTable
  UDEPPruningTable :: PruningTable
  EPPruningTable :: PruningTable
  CP_EP_PruningTable :: PruningTable
  UDEP_EP_PruningTable :: PruningTable

definition initializeMoveTables :: "Globals \<Rightarrow> Globals" where
  "initializeMoveTables g =
     g\<lparr>EO_MOVE_TABLE :=
         buildCoordinateMoveTable EO_SIZE (\<lambda>c. int (getEdgeOrientation c)) setEdgeOrientation,
       CO_MOVE_TABLE :=
         buildCoordinateMoveTable CO_SIZE (\<lambda>c. int (getCornerOrientation c)) setCornerOrientation,
       ESLICE_MOVE_TABLE :=
         buildCoordinateMoveTable ESLICE_SIZE getESlice (\<lambda>c k. setESlice c (int k)),
       CP_MOVE_TABLE :=
         buildCoordinateMoveTable CP_SIZE (\<lambda>c. int (getCornerPermutation c)) setCornerPermutation,
       UDEP_MOVE_TABLE :=
         buildCoordinateMoveTable UDEP_SIZE (\<lambda>c. int (getUDEdgePermutation c)) setUDEdgePermutation,
       EP_MOVE_TABLE :=
         buildCoordinateMoveTable EP_SIZE (\<lambda>c. int (getESlicePermutation c)) setESlicePermutation\<rparr>"

text \<open>
  An exception thrown by the JavaScript runtime.  The only one these functions can meet
  is the \<open>TypeError\<close> of reading an index of \<open>undefined\<close>: a move table that has no row
  for the move (the tables before \<open>initializeMoveTables\<close> has run).  Its message names
  the index that was to be read, here the coordinate.
\<close>

datatype JsError = TypeError "int option"

text \<open>
  \<open>TABLE[moveIdx][coord]\<close>: a missing row throws; inside a row, the read is \<open>undefined\<close>
  when \<open>coord\<close> is \<open>undefined\<close> or no index of the row.
\<close>

definition tableLookup :: "int list list \<Rightarrow> coordinate \<Rightarrow> nat \<Rightarrow> JsError + coordinate" where
  "tableLookup table coord moveIdx =
     (if moveIdx \<ge> length table then Inl (TypeError coord)
      else Inr (case coord of
                  None \<Rightarrow> None
                | Some k \<Rightarrow>
                    if 0 \<le> k \<and> nat k < length (table ! moveIdx)
                    then Some (table ! moveIdx ! nat k) else None))"

definition applyMoveToEO :: "Globals \<Rightarrow> coordinate \<Rightarrow> nat \<Rightarrow> JsError + coordinate" where
  "applyMoveToEO g coord moveIdx = tableLookup (EO_MOVE_TABLE g) coord moveIdx"

definition applyMoveToCO :: "Globals \<Rightarrow> coordinate \<Rightarrow> nat \<Rightarrow> JsError + coordinate" where
  "applyMoveToCO g coord moveIdx = tableLookup (CO_MOVE_TABLE g) coord moveIdx"

definition applyMoveToESlice :: "Globals \<Rightarrow> coordinate \<Rightarrow> nat \<Rightarrow> JsError + coordinate" where
  "applyMoveToESlice g coord moveIdx = tableLookup (ESLICE_MOVE_TABLE g) coord moveIdx"

definition applyMoveToCP :: "Globals \<Rightarrow> coordinate \<Rightarrow> nat \<Rightarrow> JsError + coordinate" where
  "applyMoveToCP g coord moveIdx = tableLookup (CP_MOVE_TABLE g) coord moveIdx"

definition applyMoveToUDEP :: "Globals \<Rightarrow> coordinate \<Rightarrow> nat \<Rightarrow> JsError + coordinate" where
  "applyMoveToUDEP g coord moveIdx = tableLookup (UDEP_MOVE_TABLE g) coord moveIdx"

definition applyMoveToEP :: "Globals \<Rightarrow> coordinate \<Rightarrow> nat \<Rightarrow> JsError + coordinate" where
  "applyMoveToEP g coord moveIdx = tableLookup (EP_MOVE_TABLE g) coord moveIdx"

definition CP_EP_SIZE :: nat where "CP_EP_SIZE = CP_SIZE * EP_SIZE"
definition UDEP_EP_SIZE :: nat where "UDEP_EP_SIZE = UDEP_SIZE * EP_SIZE"

text \<open>
  The composite moves split the coordinate, move both parts and join them again;
  arithmetic on \<open>undefined\<close> gives \<open>NaN\<close>, which indexes nothing.
\<close>

definition joinCoord :: "coordinate \<Rightarrow> coordinate \<Rightarrow> coordinate" where
  "joinCoord a b =
     (case (a, b) of (Some x, Some y) \<Rightarrow> Some (x * int EP_SIZE + y) | _ \<Rightarrow> None)"

definition applyMoveToCP_EP :: "Globals \<Rightarrow> coordinate \<Rightarrow> nat \<Rightarrow> JsError + coordinate" where
  "applyMoveToCP_EP g coord moveIdx =
     (let cpPart = map_option (\<lambda>c. c div int EP_SIZE) coord;
          epPart = map_option (\<lambda>c. c mod int EP_SIZE) coord
      in case tableLookup (CP_MOVE_TABLE g) cpPart moveIdx of
           Inl e \<Rightarrow> Inl e
         | Inr nextCp \<Rightarrow>
             (case tableLookup (EP_MOVE_TABLE g) epPart moveIdx of
                Inl e \<Rightarrow> Inl e
              | Inr nextEp \<Rightarrow> Inr (joinCoord nextCp nextEp)))"

definition applyMoveToUDEP_EP :: "Globals \<Rightarrow> coordinate \<Rightarrow> nat \<Rightarrow> JsError + coordinate" where
  "applyMoveToUDEP_EP g coord moveIdx =
     (let udepPart = map_option (\<lambda>c. c div int EP_SIZE) coord;
          epPart = map_option (\<lambda>c. c mod int EP_SIZE) coord
      in case tableLookup (UDEP_MOVE_TABLE g) udepPart moveIdx of
           Inl e \<Rightarrow> Inl e
         | Inr nextUdep \<Rightarrow>
             (case tableLookup (EP_MOVE_TABLE g) epPart moveIdx of
                Inl e \<Rightarrow> Inl e
              | Inr nextEp \<Rightarrow> Inr (joinCoord nextUdep nextEp)))"

section \<open>Pruning tables (solver/kociemba/pruning.ts)\<close>

definition MAX_DISTANCE :: nat where "MAX_DISTANCE = 20"
definition UNKNOWN_DISTANCE :: nat where "UNKNOWN_DISTANCE = 255"

definition newPruningTable :: "nat \<Rightarrow> string \<Rightarrow> PruningTable" where
  "newPruningTable sz nm = \<lparr>tdata = replicate sz UNKNOWN_DISTANCE, tsize = sz, tname = nm\<rparr>"

text \<open>
  \<open>get\<close> reads the byte array; outside the array (or at \<open>undefined\<close>) the read is
  \<open>undefined\<close>.  \<open>set\<close> stores \<open>Math.min(distance, MAX_DISTANCE)\<close>; a write outside a typed
  array is dropped, and \<open>NaN\<close> (here \<open>None\<close>) is stored as 0.
\<close>

definition tableGet :: "PruningTable \<Rightarrow> coordinate \<Rightarrow> nat option" where
  "tableGet table index =
     (case index of
        None \<Rightarrow> None
      | Some k \<Rightarrow> if 0 \<le> k \<and> nat k < length (tdata table) then Some (tdata table ! nat k) else None)"

definition tableSet :: "PruningTable \<Rightarrow> coordinate \<Rightarrow> nat option \<Rightarrow> PruningTable" where
  "tableSet table index distance =
     (case index of
        None \<Rightarrow> table
      | Some k \<Rightarrow>
          if 0 \<le> k \<and> nat k < length (tdata table)
          then table\<lparr>tdata := (tdata table)
                 [nat k := (case distance of Some d \<Rightarrow> min d MAX_DISTANCE | None \<Rightarrow> 0)]\<rparr>
          else table)"

text \<open>
  \<open>buildPruningTable\<close>: breadth-first search from the goal.  The queue is an array that
  only grows, read at \<open>head\<close>.  One round of the inner \<open>for\<close> loop is \<open>bfsVisit\<close>; a throw
  of \<open>applyMoveFunc\<close> ends the whole construction.
\<close>

definition bfsVisit ::
  "(coordinate \<Rightarrow> nat \<Rightarrow> JsError + coordinate) \<Rightarrow> int \<Rightarrow> nat option \<Rightarrow>
   PruningTable \<times> int list \<Rightarrow> nat \<Rightarrow> JsError + PruningTable \<times> int list" where
  "bfsVisit applyMoveFunc currentCoord nextDistance st moveIdx =
     (case applyMoveFunc (Some currentCoord) moveIdx of
        Inl e \<Rightarrow> Inl e
      | Inr nextCoord \<Rightarrow>
          Inr (if tableGet (fst st) nextCoord = Some UNKNOWN_DISTANCE
               then (tableSet (fst st) nextCoord nextDistance, snd st @ [the nextCoord])
               else st))"

definition bfsMoves ::
  "(coordinate \<Rightarrow> nat \<Rightarrow> JsError + coordinate) \<Rightarrow> int \<Rightarrow> nat option \<Rightarrow>
   PruningTable \<times> int list \<Rightarrow> nat list \<Rightarrow> JsError + PruningTable \<times> int list" where
  "bfsMoves applyMoveFunc currentCoord nextDistance st allowedMoves =
     foldl (\<lambda>acc moveIdx.
              case acc of
                Inl e \<Rightarrow> Inl e
              | Inr s \<Rightarrow> bfsVisit applyMoveFunc currentCoord nextDistance s moveIdx)
       (Inr st) allowedMoves"

definition unknownCount :: "PruningTable \<Rightarrow> nat" where
  "unknownCount table = length (filter (\<lambda>d. d = UNKNOWN_DISTANCE) (tdata table))"

lemma unknownCount_tableSet:
  assumes "tableGet table index = Some UNKNOWN_DISTANCE"
  shows "Suc (unknownCount (tableSet table index distance)) = unknownCount table"
proof -
  from assms obtain k where k: "index = Some k" "0 \<le> k" "nat k < length (tdata table)"
    "tdata table ! nat k = UNKNOWN_DISTANCE"
    by (auto simp: tableGet_def split: option.splits if_splits)
  define v where "v = (case distance of Some d \<Rightarrow> min d MAX_DISTANCE | None \<Rightarrow> 0)"
  have v: "v \<noteq> UNKNOWN_DISTANCE"
    by (auto simp: v_def MAX_DISTANCE_def UNKNOWN_DISTANCE_def split: option.splits)
  have a: "tdata table = take (nat k) (tdata table) @ UNKNOWN_DISTANCE # drop (Suc (nat k)) (tdata table)"
    using k by (metis id_take_nth_drop)
  have b: "tdata (tableSet table index distance)
             = take (nat k) (tdata table) @ v # drop (Suc (nat k)) (tdata table)"
    using k by (simp add: tableSet_def v_def upd_conv_take_nth_drop)
  have "unknownCount table =
          length (filter (\<lambda>d. d = UNKNOWN_DISTANCE) (take (nat k) (tdata table))) + 1 +
          length (filter (\<lambda>d. d = UNKNOWN_DISTANCE) (drop (Suc (nat k)) (tdata table)))"
    unfolding unknownCount_def by (subst a) simp
  moreover have "unknownCount (tableSet table index distance) =
          length (filter (\<lambda>d. d = UNKNOWN_DISTANCE) (take (nat k) (tdata table))) +
          length (filter (\<lambda>d. d = UNKNOWN_DISTANCE) (drop (Suc (nat k)) (tdata table)))"
    unfolding unknownCount_def b using v by simp
  ultimately show ?thesis
    by simp
qed

lemma bfsVisit_measure:
  assumes "bfsVisit f c d st m = Inr st'"
  shows "unknownCount (fst st') + length (snd st') = unknownCount (fst st) + length (snd st)"
    and "length (snd st) \<le> length (snd st')"
proof -
  from assms obtain nx where nx: "f (Some c) m = Inr nx"
    and st': "st' = (if tableGet (fst st) nx = Some UNKNOWN_DISTANCE
                     then (tableSet (fst st) nx d, snd st @ [the nx]) else st)"
    by (auto simp: bfsVisit_def split: sum.splits)
  show "unknownCount (fst st') + length (snd st') = unknownCount (fst st) + length (snd st)"
    using unknownCount_tableSet [of "fst st" nx d] by (auto simp: st')
  show "length (snd st) \<le> length (snd st')"
    by (simp add: st')
qed

lemma bfsMoves_Inl: "foldl (\<lambda>acc moveIdx. case acc of Inl e \<Rightarrow> Inl e | Inr s \<Rightarrow> h s moveIdx) (Inl e) ms = Inl e"
  by (induction ms) simp_all

lemma bfsMoves_measure:
  assumes "bfsMoves f c d st ms = Inr st'"
  shows "unknownCount (fst st') + length (snd st') = unknownCount (fst st) + length (snd st) \<and>
         length (snd st) \<le> length (snd st')"
  using assms
proof (induction ms arbitrary: st)
  case Nil
  then show ?case by (simp add: bfsMoves_def)
next
  case (Cons m ms)
  show ?case
  proof (cases "bfsVisit f c d st m")
    case (Inl e)
    with Cons.prems show ?thesis
      by (simp add: bfsMoves_def bfsMoves_Inl)
  next
    case (Inr s)
    with Cons.prems have "bfsMoves f c d s ms = Inr st'"
      by (simp add: bfsMoves_def)
    from Cons.IH [OF this] bfsVisit_measure [OF Inr] show ?thesis
      by simp
  qed
qed

function bfsLoop ::
  "(coordinate \<Rightarrow> nat \<Rightarrow> JsError + coordinate) \<Rightarrow> nat list \<Rightarrow> PruningTable \<Rightarrow> int list \<Rightarrow> nat \<Rightarrow>
   JsError + PruningTable" where
  "bfsLoop applyMoveFunc allowedMoves table queue head =
     (if head < length queue
      then let currentCoord = queue ! head;
               currentDistance = tableGet table (Some currentCoord)
           in if (case currentDistance of Some d \<Rightarrow> d \<ge> MAX_DISTANCE - 1 | None \<Rightarrow> False)
              then bfsLoop applyMoveFunc allowedMoves table queue (head + 1)
              else let nextDistance = map_option (\<lambda>d. d + 1) currentDistance
                   in (case bfsMoves applyMoveFunc currentCoord nextDistance (table, queue)
                              allowedMoves of
                         Inl e \<Rightarrow> Inl e
                       | Inr st \<Rightarrow> bfsLoop applyMoveFunc allowedMoves (fst st) (snd st) (head + 1))
      else Inr table)"
  by pat_completeness auto
termination
proof (relation "measure (\<lambda>(f, ms, table, queue, head).
                   2 * unknownCount table + (length queue - head))", goal_cases)
  case 1
  show ?case by simp
next
  case (2 f ms table queue head)
  then show ?case by auto
next
  case (3 f ms table queue head c d nd st)
  from 3 have "bfsMoves f c nd (table, queue) ms = Inr st"
    by simp
  from bfsMoves_measure [OF this]
  have "unknownCount (fst st) + length (snd st) = unknownCount table + length queue"
    and "length queue \<le> length (snd st)"
    by simp_all
  then show ?case
    using 3(1) by simp
qed

declare bfsLoop.simps [simp del]

definition buildPruningTable ::
  "PruningTable \<Rightarrow> (coordinate \<Rightarrow> nat \<Rightarrow> JsError + coordinate) \<Rightarrow> int \<Rightarrow> nat list \<Rightarrow>
   JsError + PruningTable" where
  "buildPruningTable table applyMoveFunc goalCoord allowedMoves =
     bfsLoop applyMoveFunc allowedMoves (tableSet table (Some goalCoord) (Some 0)) [goalCoord] 0"

text \<open>The default of the \<open>allowedMoves\<close> parameter: all 18 move indices.\<close>

definition defaultAllowedMoves :: "nat list" where
  "defaultAllowedMoves = [0..<18]"

definition PHASE2_MOVES :: "nat list" where
  "PHASE2_MOVES = [0, 1, 2, 9, 10, 11, 4, 13, 7, 16]"

text \<open>
  The cache directory: the bytes of the file of each table name, if the file exists.
  \<open>loadPruningTable\<close> fails when the file is missing or has the wrong length
  (\<open>setData\<close> throws, the caller catches).
\<close>

type_synonym Cache = "string \<Rightarrow> nat list option"

definition loadPruningTable :: "Cache \<Rightarrow> PruningTable \<Rightarrow> PruningTable option" where
  "loadPruningTable files table =
     (case files (tname table) of
        None \<Rightarrow> None
      | Some bytes \<Rightarrow> if length bytes \<noteq> tsize table then None else Some (table\<lparr>tdata := bytes\<rparr>))"

definition savePruningTable :: "Cache \<Rightarrow> PruningTable \<Rightarrow> Cache" where
  "savePruningTable files table = files(tname table \<mapsto> tdata table)"

record Runtime =
  globals :: Globals
  cache :: Cache

text \<open>The module state right after loading: no move tables, every pruning table unknown.\<close>

definition moduleGlobals :: Globals where
  "moduleGlobals =
     \<lparr>EO_MOVE_TABLE = [], CO_MOVE_TABLE = [], ESLICE_MOVE_TABLE = [], CP_MOVE_TABLE = [],
      UDEP_MOVE_TABLE = [], EP_MOVE_TABLE = [],
      EOPruningTable = newPruningTable EO_SIZE ''eo_pruning'',
      COPruningTable = newPruningTable CO_SIZE ''co_pruning'',
      ESlicePruningTable = newPruningTable ESLICE_SIZE ''eslice_pruning'',
      CPPruningTable = newPruningTable CP_SIZE ''cp_pruning'',
      UDEPPruningTable = newPruningTable UDEP_SIZE ''udep_pruning'',
      EPPruningTable = newPruningTable EP_SIZE ''ep_pruning'',
      CP_EP_PruningTable = newPruningTable CP_EP_SIZE ''cp_ep_pruning'',
      UDEP_EP_PruningTable = newPruningTable UDEP_EP_SIZE ''udep_ep_pruning''\<rparr>"

text \<open>
  One round of the loop of \<open>initializePruningTables\<close>, for the table read by \<open>getT\<close> and
  written back by \<open>putT\<close>: load it from the cache, or build and save it.  (A failed write
  to the cache is logged and ignored by the source; the model takes the write to
  succeed.)
\<close>

definition prepareTable ::
  "(Globals \<Rightarrow> PruningTable) \<Rightarrow> (PruningTable \<Rightarrow> Globals \<Rightarrow> Globals) \<Rightarrow>
   (Globals \<Rightarrow> coordinate \<Rightarrow> nat \<Rightarrow> JsError + coordinate) \<Rightarrow> nat list \<Rightarrow>
   JsError + Runtime \<Rightarrow> JsError + Runtime" where
  "prepareTable getT putT func allowed state =
     (case state of
        Inl e \<Rightarrow> Inl e
      | Inr rt \<Rightarrow>
          (case loadPruningTable (cache rt) (getT (globals rt)) of
             Some loaded \<Rightarrow> Inr (rt\<lparr>globals := putT loaded (globals rt)\<rparr>)
           | None \<Rightarrow>
               (case buildPruningTable (getT (globals rt)) (func (globals rt)) 0 allowed of
                  Inl e \<Rightarrow> Inl e
                | Inr built \<Rightarrow>
                    Inr \<lparr>globals = putT built (globals rt),
                         cache = savePruningTable (cache rt) built\<rparr>)))"

definition initializePruningTables :: "Runtime \<Rightarrow> JsError + Runtime" where
  "initializePruningTables rt =
     (let s0 = Inr (rt\<lparr>globals := initializeMoveTables (globals rt)\<rparr>);
          s1 = prepareTable EOPruningTable (\<lambda>t g. g\<lparr>EOPruningTable := t\<rparr>)
                 applyMoveToEO defaultAllowedMoves s0;
          s2 = prepareTable COPruningTable (\<lambda>t g. g\<lparr>COPruningTable := t\<rparr>)
                 applyMoveToCO defaultAllowedMoves s1;
          s3 = prepareTable ESlicePruningTable (\<lambda>t g. g\<lparr>ESlicePruningTable := t\<rparr>)
                 applyMoveToESlice defaultAllowedMoves s2;
          s4 = prepareTable CPPruningTable (\<lambda>t g. g\<lparr>CPPruningTable := t\<rparr>)
                 applyMoveToCP PHASE2_MOVES s3;
          s5 = prepareTable UDEPPruningTable (\<lambda>t g. g\<lparr>UDEPPruningTable := t\<rparr>)
                 applyMoveToUDEP PHASE2_MOVES s4;
          s6 = prepareTable EPPruningTable (\<lambda>t g. g\<lparr>EPPruningTable := t\<rparr>)
                 applyMoveToEP PHASE2_MOVES s5;
          s7 = prepareTable CP_EP_PruningTable (\<lambda>t g. g\<lparr>CP_EP_PruningTable := t\<rparr>)
                 applyMoveToCP_EP PHASE2_MOVES s6
      in prepareTable UDEP_EP_PruningTable (\<lambda>t g. g\<lparr>UDEP_EP_PruningTable := t\<rparr>)
           applyMoveToUDEP_EP PHASE2_MOVES s7)"

text \<open>\<open>Math.max\<close> of table reads: \<open>NaN\<close> as soon as one read is \<open>undefined\<close>.\<close>

fun jsMax :: "nat option list \<Rightarrow> nat option" where
  "jsMax [] = Some 0"
| "jsMax (None # xs) = None"
| "jsMax (Some x # xs) = (case jsMax xs of None \<Rightarrow> None | Some y \<Rightarrow> Some (max x y))"

definition phase1Heuristic :: "Globals \<Rightarrow> coordinate \<Rightarrow> coordinate \<Rightarrow> coordinate \<Rightarrow> nat option" where
  "phase1Heuristic g eoCoord coCoord esliceCoord =
     (let eoDistance = tableGet (EOPruningTable g) eoCoord;
          coDistance = tableGet (COPruningTable g) coCoord;
          esliceDistance = tableGet (ESlicePruningTable g) esliceCoord
      in jsMax [eoDistance, coDistance, esliceDistance])"

definition phase2Heuristic :: "Globals \<Rightarrow> coordinate \<Rightarrow> coordinate \<Rightarrow> coordinate \<Rightarrow> nat option" where
  "phase2Heuristic g cpCoord udepCoord epCoord =
     (let cp_ep = joinCoord cpCoord epCoord;
          udep_ep = joinCoord udepCoord epCoord;
          cpEpDistance = tableGet (CP_EP_PruningTable g) cp_ep;
          udepEpDistance = tableGet (UDEP_EP_PruningTable g) udep_ep
      in jsMax [cpEpDistance, udepEpDistance])"

section \<open>IDA* search (solver/kociemba/ida.ts)\<close>

record SearchResult =
  solution :: "nat list"
  depth :: nat
  nodesSearched :: nat
  timeMs :: nat

record SearchStats =
  phase1Stats :: "SearchResult option"
  phase2Stats :: "SearchResult option"
  totalDepth :: nat
  totalNodes :: nat
  totalTimeMs :: nat

definition PHASE1_MOVES :: "nat list" where
  "PHASE1_MOVES = [0..<18]"

text \<open>\<open>lastMove\<close> is \<open>-1\<close> at the root, so it is an integer.\<close>

definition shouldSkipMove :: "nat \<Rightarrow> int \<Rightarrow> nat list \<Rightarrow> bool" where
  "shouldSkipMove moveIdx lastMove allowedMoves =
     (if lastMove = - 1 then False
      else let currentFace = int moveIdx div 3;
               lastFace = lastMove div 3
           in if currentFace = lastFace then True else False)"

text \<open>\<open>currentDepth + heuristic > depth\<close> is false when the heuristic is \<open>NaN\<close>.\<close>

definition exceeds :: "nat \<Rightarrow> nat option \<Rightarrow> nat \<Rightarrow> bool" where
  "exceeds currentDepth heuristic limit =
     (case heuristic of None \<Rightarrow> False | Some h \<Rightarrow> currentDepth + h > limit)"

text \<open>
  The depth-limited search returns the solution (or \<open>null\<close>) and the number of nodes, or
  it throws.  The \<open>for\<close> loop over the moves returns from inside at the first solution; in
  the model the remaining rounds pass the found result (or the exception) on unchanged.
  The three components of \<open>nextCoord\<close> are computed in the order of the object literal.
\<close>

function searchPhase1Depth ::
  "Globals \<Rightarrow> Phase1Coord \<Rightarrow> nat \<Rightarrow> nat \<Rightarrow> int \<Rightarrow> JsError + nat list option \<times> nat" where
  "searchPhase1Depth g coord limit currentDepth lastMove =
     (if eo coord = Some 0 \<and> eslice coord = Some 0 then Inr (Some [], 1)
      else if exceeds currentDepth (phase1Heuristic g (eo coord) (co coord) (eslice coord)) limit
      then Inr (None, 1)
      else if currentDepth \<ge> limit then Inr (None, 1)
      else foldl
             (\<lambda>acc moveIdx.
                case acc of
                  Inl e \<Rightarrow> Inl e
                | Inr st \<Rightarrow>
                    (case fst st of
                       Some found \<Rightarrow> Inr st
                     | None \<Rightarrow>
                         if shouldSkipMove moveIdx lastMove PHASE1_MOVES then Inr st
                         else
                           (case applyMoveToEO g (eo coord) moveIdx of
                              Inl e \<Rightarrow> Inl e
                            | Inr nextEo \<Rightarrow>
                           (case applyMoveToCO g (co coord) moveIdx of
                              Inl e \<Rightarrow> Inl e
                            | Inr nextCo \<Rightarrow>
                           (case applyMoveToESlice g (eslice coord) moveIdx of
                              Inl e \<Rightarrow> Inl e
                            | Inr nextESlice \<Rightarrow>
                           (case searchPhase1Depth g
                                   \<lparr>eo = nextEo, co = nextCo, eslice = nextESlice\<rparr>
                                   limit (currentDepth + 1) (int moveIdx) of
                              Inl e \<Rightarrow> Inl e
                            | Inr result \<Rightarrow>
                                (case fst result of
                                   Some rest \<Rightarrow> Inr (Some (moveIdx # rest), snd st + snd result)
                                 | None \<Rightarrow> Inr (None, snd st + snd result))))))))
             (Inr (None, 1)) PHASE1_MOVES)"
  by pat_completeness auto
termination
  by (relation "measure (\<lambda>(g, coord, limit, currentDepth, lastMove). limit - currentDepth)") auto

declare searchPhase1Depth.simps [simp del]

function searchPhase2Depth ::
  "Globals \<Rightarrow> Phase2Coord \<Rightarrow> nat \<Rightarrow> nat \<Rightarrow> int \<Rightarrow> JsError + nat list option \<times> nat" where
  "searchPhase2Depth g coord limit currentDepth lastMove =
     (if cp coord = Some 0 \<and> udep coord = Some 0 \<and> ep coord = Some 0 then Inr (Some [], 1)
      else if exceeds currentDepth (phase2Heuristic g (cp coord) (udep coord) (ep coord)) limit
      then Inr (None, 1)
      else if currentDepth \<ge> limit then Inr (None, 1)
      else foldl
             (\<lambda>acc moveIdx.
                case acc of
                  Inl e \<Rightarrow> Inl e
                | Inr st \<Rightarrow>
                    (case fst st of
                       Some found \<Rightarrow> Inr st
                     | None \<Rightarrow>
                         if shouldSkipMove moveIdx lastMove PHASE2_MOVES then Inr st
                         else
                           (case applyMoveToCP g (cp coord) moveIdx of
                              Inl e \<Rightarrow> Inl e
                            | Inr nextCp \<Rightarrow>
                           (case applyMoveToUDEP g (udep coord) moveIdx of
                              Inl e \<Rightarrow> Inl e
                            | Inr nextUdep \<Rightarrow>
                           (case applyMoveToEP g (ep coord) moveIdx of
                              Inl e \<Rightarrow> Inl e
                            | Inr nextEp \<Rightarrow>
                           (case searchPhase2Depth g
                                   \<lparr>cp = nextCp, udep = nextUdep, ep = nextEp\<rparr>
                                   limit (currentDepth + 1) (int moveIdx) of
                              Inl e \<Rightarrow> Inl e
                            | Inr result \<Rightarrow>
                                (case fst result of
                                   Some rest \<Rightarrow> Inr (Some (moveIdx # rest), snd st + snd result)
                                 | None \<Rightarrow> Inr (None, snd st + snd result))))))))
             (Inr (None, 1)) PHASE2_MOVES)"
  by pat_completeness auto
termination
  by (relation "measure (\<lambda>(g, coord, limit, currentDepth, lastMove). limit - currentDepth)") auto

declare searchPhase2Depth.simps [simp del]

text \<open>
  The iterative-deepening loop \<open>for (depth = Math.max(1, heuristic); depth <= maxDepth;
  depth++)\<close>.  \<open>elapsed\<close> is what the clock reports for \<open>Date.now() - startTime\<close>.
\<close>

function deepenPhase1 ::
  "Globals \<Rightarrow> nat \<Rightarrow> Phase1Coord \<Rightarrow> nat \<Rightarrow> nat \<Rightarrow> nat \<Rightarrow> JsError + SearchResult option" where
  "deepenPhase1 g elapsed startCoord maxDepth limit nodesSoFar =
     (if limit \<le> maxDepth
      then (case searchPhase1Depth g startCoord limit 0 (- 1) of
              Inl e \<Rightarrow> Inl e
            | Inr result \<Rightarrow>
                (case fst result of
                   Some found \<Rightarrow>
                     Inr (Some \<lparr>solution = found, depth = limit,
                                nodesSearched = nodesSoFar + snd result, timeMs = elapsed\<rparr>)
                 | None \<Rightarrow>
                     deepenPhase1 g elapsed startCoord maxDepth (limit + 1)
                       (nodesSoFar + snd result)))
      else Inr None)"
  by pat_completeness auto
termination
  by (relation "measure (\<lambda>(g, elapsed, startCoord, maxDepth, limit, nodesSoFar). Suc maxDepth - limit)")
    auto

declare deepenPhase1.simps [simp del]

text \<open>
  \<open>searchPhase1\<close>.  The goal test reads \<open>eo\<close> and \<open>eslice\<close> only.  With a \<open>NaN\<close> heuristic the
  loop condition is false at once and the result is \<open>null\<close>.
\<close>

definition searchPhase1 ::
  "Globals \<Rightarrow> nat \<Rightarrow> Phase1Coord \<Rightarrow> nat \<Rightarrow> JsError + SearchResult option" where
  "searchPhase1 g elapsed startCoord maxDepth =
     (if eo startCoord = Some 0 \<and> eslice startCoord = Some 0
      then Inr (Some \<lparr>solution = [], depth = 0, nodesSearched = 0, timeMs = elapsed\<rparr>)
      else case phase1Heuristic g (eo startCoord) (co startCoord) (eslice startCoord) of
             None \<Rightarrow> Inr None
           | Some heuristic \<Rightarrow> deepenPhase1 g elapsed startCoord maxDepth (max 1 heuristic) 0)"

function deepenPhase2 ::
  "Globals \<Rightarrow> nat \<Rightarrow> Phase2Coord \<Rightarrow> nat \<Rightarrow> nat \<Rightarrow> nat \<Rightarrow> JsError + SearchResult option" where
  "deepenPhase2 g elapsed startCoord maxDepth limit nodesSoFar =
     (if limit \<le> maxDepth
      then (case searchPhase2Depth g startCoord limit 0 (- 1) of
              Inl e \<Rightarrow> Inl e
            | Inr result \<Rightarrow>
                (case fst result of
                   Some found \<Rightarrow>
                     Inr (Some \<lparr>solution = found, depth = limit,
                                nodesSearched = nodesSoFar + snd result, timeMs = elapsed\<rparr>)
                 | None \<Rightarrow>
                     deepenPhase2 g elapsed startCoord maxDepth (limit + 1)
                       (nodesSoFar + snd result)))
      else Inr None)"
  by pat_completeness auto
termination
  by (relation "measure (\<lambda>(g, elapsed, startCoord, maxDepth, limit, nodesSoFar). Suc maxDepth - limit)")
    auto

declare deepenPhase2.simps [simp del]

definition searchPhase2 ::
  "Globals \<Rightarrow> nat \<Rightarrow> Phase2Coord \<Rightarrow> nat \<Rightarrow> JsError + SearchResult option" where
  "searchPhase2 g elapsed startCoord maxDepth =
     (if cp startCoord = Some 0 \<and> udep startCoord = Some 0 \<and> ep startCoord = Some 0
      then Inr (Some \<lparr>solution = [], depth = 0, nodesSearched = 0, timeMs = elapsed\<rparr>)
      else case phase2Heuristic g (cp startCoord) (udep startCoord) (ep startCoord) of
             None \<Rightarrow> Inr None
           | Some heuristic \<Rightarrow> deepenPhase2 g elapsed startCoord maxDepth (max 1 heuristic) 0)"

definition moveIndicesToKeys :: "nat list \<Rightarrow> MoveKey list" where
  "moveIndicesToKeys moveIndices = map (\<lambda>idx. MOVE_KEYS ! idx) moveIndices"

section \<open>Sequence inversion (core/notation.ts)\<close>

text \<open>
  \<open>invertMoveKey\<close> works on the key's name: a trailing \<open>p\<close> is dropped, a trailing \<open>2\<close>
  kept, anything else gets a \<open>p\<close>.
\<close>

fun invertMoveKey :: "MoveKey \<Rightarrow> MoveKey" where
  "invertMoveKey Key_U = Key_Up"
| "invertMoveKey Key_U2 = Key_U2"
| "invertMoveKey Key_Up = Key_U"
| "invertMoveKey Key_R = Key_Rp"
| "invertMoveKey Key_R2 = Key_R2"
| "invertMoveKey Key_Rp = Key_R"
| "invertMoveKey Key_F = Key_Fp"
| "invertMoveKey Key_F2 = Key_F2"
| "invertMoveKey Key_Fp = Key_F"
| "invertMoveKey Key_D = Key_Dp"
| "invertMoveKey Key_D2 = Key_D2"
| "invertMoveKey Key_Dp = Key_D"
| "invertMoveKey Key_L = Key_Lp"
| "invertMoveKey Key_L2 = Key_L2"
| "invertMoveKey Key_Lp = Key_L"
| "invertMoveKey Key_B = Key_Bp"
| "invertMoveKey Key_B2 = Key_B2"
| "invertMoveKey Key_Bp = Key_B"

definition invertMoveSequence :: "MoveKey list \<Rightarrow> MoveKey list" where
  "invertMoveSequence ms = map invertMoveKey (rev ms)"

definition applyMoveSequence :: "Cube \<Rightarrow> MoveKey list \<Rightarrow> Cube" where
  "applyMoveSequence cube ms = foldl (\<lambda>result moveKey. applyMove result (getMoveByKey moveKey)) cube ms"

section \<open>Solver orchestration (solver/kociemba/solver.ts)\<close>

record SolverConfig =
  maxPhase1Depth :: nat
  maxPhase2Depth :: nat
  maxTotalDepth :: nat
  timeoutMs :: "nat option"
  verbose :: bool

definition DEFAULT_CONFIG :: SolverConfig where
  "DEFAULT_CONFIG =
     \<lparr>maxPhase1Depth = 18, maxPhase2Depth = 18, maxTotalDepth = 30, timeoutMs = None,
      verbose = False\<rparr>"

text \<open>The messages a failed result carries in its \<open>error\<close> field.\<close>

datatype SolverError =
  FailedToReachG1
| Phase1SearchFailed nat
| Phase2SearchFailed nat
| SolutionVerificationFailed
| SolverException JsError

record Solution =
  moves :: "MoveKey list"
  scramble :: "MoveKey list"
  phase1Moves :: "MoveKey list"
  phase2Moves :: "MoveKey list"
  stats :: SearchStats
  success :: bool
  error :: "SolverError option"

record Solver =
  initialized :: bool
  config :: SolverConfig

text \<open>What the clock reports for the three measured durations of one call.\<close>

record Clock =
  phase1Elapsed :: nat
  phase2Elapsed :: nat
  solveElapsed :: nat

definition zeroStats :: SearchStats where
  "zeroStats =
     \<lparr>phase1Stats = None, phase2Stats = None, totalDepth = 0, totalNodes = 0, totalTimeMs = 0\<rparr>"

definition emptySolution :: "SearchStats \<Rightarrow> bool \<Rightarrow> SolverError option \<Rightarrow> Solution" where
  "emptySolution st ok err =
     \<lparr>moves = [], scramble = [], phase1Moves = [], phase2Moves = [], stats = st,
      success = ok, error = err\<rparr>"

definition solvePhase1 :: "SolverConfig \<Rightarrow> Globals \<Rightarrow> Clock \<Rightarrow> Cube \<Rightarrow> JsError + Solution" where
  "solvePhase1 cfg g clk cube =
     (let phase1Coord = getPhase1Coord cube
      in if isInG1 cube then Inr (emptySolution zeroStats True None)
         else case searchPhase1 g (phase1Elapsed clk) phase1Coord (maxPhase1Depth cfg) of
                Inl e \<Rightarrow> Inl e
              | Inr None \<Rightarrow>
                  Inr (emptySolution zeroStats False
                         (Some (Phase1SearchFailed (maxPhase1Depth cfg))))
              | Inr (Some searchResult) \<Rightarrow>
                  let keys = moveIndicesToKeys (solution searchResult)
                  in Inr \<lparr>moves = keys, scramble = [], phase1Moves = keys, phase2Moves = [],
                          stats = \<lparr>phase1Stats = Some searchResult, phase2Stats = None,
                                   totalDepth = depth searchResult,
                                   totalNodes = nodesSearched searchResult,
                                   totalTimeMs = timeMs searchResult\<rparr>,
                          success = True, error = None\<rparr>)"

definition solvePhase2 :: "SolverConfig \<Rightarrow> Globals \<Rightarrow> Clock \<Rightarrow> Cube \<Rightarrow> JsError + Solution" where
  "solvePhase2 cfg g clk cube =
     (let phase2Coord = getPhase2Coord cube
      in if isSolved cube then Inr (emptySolution zeroStats True None)
         else case searchPhase2 g (phase2Elapsed clk) phase2Coord (maxPhase2Depth cfg) of
                Inl e \<Rightarrow> Inl e
              | Inr None \<Rightarrow>
                  Inr (emptySolution zeroStats False
                         (Some (Phase2SearchFailed (maxPhase2Depth cfg))))
              | Inr (Some searchResult) \<Rightarrow>
                  let keys = moveIndicesToKeys (solution searchResult)
                  in Inr \<lparr>moves = keys, scramble = [], phase1Moves = [], phase2Moves = keys,
                          stats = \<lparr>phase1Stats = None, phase2Stats = Some searchResult,
                                   totalDepth = depth searchResult,
                                   totalNodes = nodesSearched searchResult,
                                   totalTimeMs = timeMs searchResult\<rparr>,
                          success = True, error = None\<rparr>)"

definition verifySolution :: "Cube \<Rightarrow> MoveKey list \<Rightarrow> bool" where
  "verifySolution originalCube sol =
     (let testCube = foldl (\<lambda>c moveKey. applyMove c (getMoveByKey moveKey)) originalCube sol
      in if \<not> isSolved testCube then False else True)"

text \<open>
  The body of \<open>solve\<close> after initialisation: the \<open>try\<close> block, and the \<open>catch\<close> block that
  turns an exception of either phase into a failed result (\<open>SolverException\<close>, the message \<open>Solver error: ...\<close>) carrying
  the statistics gathered so far and the elapsed time.
\<close>

definition solveBody :: "SolverConfig \<Rightarrow> Globals \<Rightarrow> Clock \<Rightarrow> Cube \<Rightarrow> Solution" where
  "solveBody cfg g clk cube =
     (if isSolved cube then emptySolution zeroStats True None
      else
        case solvePhase1 cfg g clk cube of
          Inl e \<Rightarrow>
            emptySolution (zeroStats\<lparr>totalTimeMs := solveElapsed clk\<rparr>) False
              (Some (SolverException e))
        | Inr phase1Result \<Rightarrow>
           if \<not> success phase1Result then phase1Result
           else
             let stats1 = zeroStats\<lparr>phase1Stats := phase1Stats (stats phase1Result),
                                    totalNodes := totalNodes zeroStats + totalNodes (stats phase1Result)\<rparr>;
                 intermediateCube =
                   foldl (\<lambda>c moveKey. applyMove c (getMoveByKey moveKey)) cube
                     (phase1Moves phase1Result)
             in if \<not> isInG1 intermediateCube
                then emptySolution stats1 False (Some FailedToReachG1)
                else
                  case solvePhase2 cfg g clk intermediateCube of
                    Inl e \<Rightarrow>
                      emptySolution (stats1\<lparr>totalTimeMs := solveElapsed clk\<rparr>) False
                        (Some (SolverException e))
                  | Inr phase2Result \<Rightarrow>
                     if \<not> success phase2Result
                     then phase2Result
                            \<lparr>phase1Moves := phase1Moves phase1Result,
                             stats := stats1\<lparr>phase2Stats := phase2Stats (stats phase2Result),
                                            totalNodes := totalNodes stats1 +
                                                          totalNodes (stats phase2Result)\<rparr>\<rparr>
                     else
                       let stats2 = stats1
                             \<lparr>phase2Stats := phase2Stats (stats phase2Result),
                              totalNodes := totalNodes stats1 + totalNodes (stats phase2Result),
                              totalDepth := length (phase1Moves phase1Result) +
                                            length (phase2Moves phase2Result),
                              totalTimeMs := solveElapsed clk\<rparr>;
                           sol = phase1Moves phase1Result @ phase2Moves phase2Result;
                           scr = invertMoveSequence sol
                       in if \<not> verifySolution cube sol
                          then \<lparr>moves = sol, scramble = scr,
                                phase1Moves = phase1Moves phase1Result,
                                phase2Moves = phase2Moves phase2Result,
                                stats = stats2, success = False,
                                error = Some SolutionVerificationFailed\<rparr>
                          else \<lparr>moves = sol, scramble = scr,
                                phase1Moves = phase1Moves phase1Result,
                                phase2Moves = phase2Moves phase2Result,
                                stats = stats2, success = True, error = None\<rparr>)"

text \<open>
  \<open>initialize\<close> runs \<open>initializePruningTables\<close> once per solver object and rethrows what it
  throws; \<open>solve\<close> calls it first when the object is not yet initialised, outside its
  \<open>try\<close> block, so that a failed initialisation rejects the promise (\<open>Inl\<close>).
\<close>

definition initialize :: "Runtime \<Rightarrow> Solver \<Rightarrow> JsError + Solver \<times> Runtime" where
  "initialize rt solver =
     (if initialized solver then Inr (solver, rt)
      else case initializePruningTables rt of
             Inl e \<Rightarrow> Inl e
           | Inr rt' \<Rightarrow> Inr (solver\<lparr>initialized := True\<rparr>, rt'))"

definition solve ::
  "Clock \<Rightarrow> Runtime \<Rightarrow> Solver \<Rightarrow> Cube \<Rightarrow> JsError + Solution \<times> Solver \<times> Runtime" where
  "solve clk rt solver cube =
     (case (if \<not> initialized solver then initialize rt solver else Inr (solver, rt)) of
        Inl e \<Rightarrow> Inl e
      | Inr ready \<Rightarrow>
          Inr (solveBody (config (fst ready)) (globals (snd ready)) clk cube,
               fst ready, snd ready))"

section \<open>Auxiliary notions used in the statements and proofs\<close>

text \<open>
  What the proofs need of a move operator: its two maps are permutations of the slots
  and its orientation deltas cancel (modulo 3 and modulo 2).
\<close>

definition moveShape :: "MoveTable \<Rightarrow> bool" where
  "moveShape m \<longleftrightarrow>
     mset (cornerPerm m) = mset [0..<8] \<and> mset (edgePerm m) = mset [0..<12] \<and>
     length (cornerOriDelta m) = 8 \<and> sum_list (cornerOriDelta m) mod 3 = 0 \<and>
     list_all (\<lambda>d. d < 3) (cornerOriDelta m) \<and>
     length (edgeOriDelta m) = 12 \<and> sum_list (edgeOriDelta m) mod 2 = 0 \<and>
     list_all (\<lambda>d. d < 2) (edgeOriDelta m)"

text \<open>
  The answer part of a result: the four move sequences, the success flag and the error.
  What is left out is the statistics (node counts and times).
\<close>

definition answer ::
  "Solution \<Rightarrow> MoveKey list \<times> MoveKey list \<times> MoveKey list \<times> MoveKey list \<times> bool \<times> SolverError option" where
  "answer r = (moves r, scramble r, phase1Moves r, phase2Moves r, success r, error r)"

text \<open>
  Concrete inputs for the closed statements: a process that has just loaded the module
  with an empty cache directory, a solver object with the default configuration, a clock
  that reports 0, and the solved cube with the orientation of edge slot 0 set to 1.
\<close>

definition freshRuntime :: Runtime where
  "freshRuntime = \<lparr>globals = moduleGlobals, cache = (\<lambda>file. None)\<rparr>"

definition freshSolver :: Solver where
  "freshSolver = \<lparr>initialized = False, config = DEFAULT_CONFIG\<rparr>"

definition zeroClock :: Clock where
  "zeroClock = \<lparr>phase1Elapsed = 0, phase2Elapsed = 0, solveElapsed = 0\<rparr>"

definition flippedEdgeCube :: Cube where
  "flippedEdgeCube = solvedCube\<lparr>eOri := [1, 0, 0, 0, 0, 0, 0, 0, 0, 0, 0, 0]\<rparr>"


text \<open>
  The solved cube with the corners of slots 0 and 1 twisted, one clockwise and one
  counter-clockwise: a state of the real cube (it passes \<open>isValidCube\<close>).
\<close>

definition twistedCornerCube :: Cube where
  "twistedCornerCube = solvedCube\<lparr>cOri := [1, 2, 0, 0, 0, 0, 0, 0]\<rparr>"

text \<open>Every coordinate move table has its 18 rows (the state after \<open>initializeMoveTables\<close>).\<close>

definition tablesReady :: "Globals \<Rightarrow> bool" where
  "tablesReady g \<longleftrightarrow>
     length (EO_MOVE_TABLE g) = 18 \<and> length (CO_MOVE_TABLE g) = 18 \<and>
     length (ESLICE_MOVE_TABLE g) = 18 \<and> length (CP_MOVE_TABLE g) = 18 \<and>
     length (UDEP_MOVE_TABLE g) = 18 \<and> length (EP_MOVE_TABLE g) = 18"

text \<open>
  The slots that hold an E-slice edge (one of the edges 8..11), largest slot first.
\<close>

definition eslicePositions :: "Cube \<Rightarrow> nat list" where
  "eslicePositions cube = filter (\<lambda>i. ePerm cube ! i \<in> set E_EDGES) (rev [0..<12])"

text \<open>
  The enumeration the specification names for the E-slice coordinate: all sets of four of
  the twelve edge slots, each written with its largest slot first, listed in decreasing
  lexicographic order, so that the first entry is 11, 10, 9, 8 and the last is 3, 2, 1, 0.
\<close>

definition reverseLexEnumeration :: "nat list list" where
  "reverseLexEnumeration =
     concat (map (\<lambda>a. concat (map (\<lambda>b. concat (map (\<lambda>c. map (\<lambda>d. [a, b, c, d]) (rev [0..<c]))
       (rev [0..<b]))) (rev [0..<a]))) (rev [0..<12]))"
section \<open>Facts about the cubie model\<close>

lemma upt_8: "[0..<8] = [0, 1, 2, 3, 4, 5, 6, 7]"
  by (simp add: upt_rec)

lemma upt_12: "[0..<12] = [0, 1, 2, 3, 4, 5, 6, 7, 8, 9, 10, 11]"
  by (simp add: upt_rec)

lemma length_8_conv:
  "length xs = 8 \<longleftrightarrow> (\<exists>a b c d e f g h. xs = [a, b, c, d, e, f, g, h])"
  by (auto simp: eval_nat_numeral length_Suc_conv)

lemma length_12_conv:
  "length xs = 12 \<longleftrightarrow>
     (\<exists>a b c d e f g h i j k l. xs = [a, b, c, d, e, f, g, h, i, j, k, l])"
  by (auto simp: eval_nat_numeral length_Suc_conv)

lemma replicate_8: "replicate 8 x = [x, x, x, x, x, x, x, x]"
  by (simp add: eval_nat_numeral)

lemma replicate_12: "replicate 12 x = [x, x, x, x, x, x, x, x, x, x, x, x]"
  by (simp add: eval_nat_numeral)

text \<open>The eighteen operators and their inverses, computed once.\<close>

lemma ALL_MOVES_eval:
  "ALL_MOVES Key_U =
     \<lparr>cornerPerm = [3, 0, 1, 2, 4, 5, 6, 7], cornerOriDelta = [0, 0, 0, 0, 0, 0, 0, 0],
      edgePerm = [3, 0, 1, 2, 4, 5, 6, 7, 8, 9, 10, 11],
      edgeOriDelta = [0, 0, 0, 0, 0, 0, 0, 0, 0, 0, 0, 0]\<rparr>"
  "ALL_MOVES Key_U2 =
     \<lparr>cornerPerm = [2, 3, 0, 1, 4, 5, 6, 7], cornerOriDelta = [0, 0, 0, 0, 0, 0, 0, 0],
      edgePerm = [2, 3, 0, 1, 4, 5, 6, 7, 8, 9, 10, 11],
      edgeOriDelta = [0, 0, 0, 0, 0, 0, 0, 0, 0, 0, 0, 0]\<rparr>"
  "ALL_MOVES Key_Up =
     \<lparr>cornerPerm = [1, 2, 3, 0, 4, 5, 6, 7], cornerOriDelta = [0, 0, 0, 0, 0, 0, 0, 0],
      edgePerm = [1, 2, 3, 0, 4, 5, 6, 7, 8, 9, 10, 11],
      edgeOriDelta = [0, 0, 0, 0, 0, 0, 0, 0, 0, 0, 0, 0]\<rparr>"
  "ALL_MOVES Key_R =
     \<lparr>cornerPerm = [4, 1, 2, 0, 7, 5, 6, 3], cornerOriDelta = [2, 0, 0, 1, 1, 0, 0, 2],
      edgePerm = [8, 1, 2, 3, 11, 5, 6, 7, 4, 9, 10, 0],
      edgeOriDelta = [0, 0, 0, 0, 0, 0, 0, 0, 0, 0, 0, 0]\<rparr>"
  "ALL_MOVES Key_R2 =
     \<lparr>cornerPerm = [7, 1, 2, 4, 3, 5, 6, 0], cornerOriDelta = [0, 0, 0, 0, 0, 0, 0, 0],
      edgePerm = [4, 1, 2, 3, 0, 5, 6, 7, 11, 9, 10, 8],
      edgeOriDelta = [0, 0, 0, 0, 0, 0, 0, 0, 0, 0, 0, 0]\<rparr>"
  "ALL_MOVES Key_Rp =
     \<lparr>cornerPerm = [3, 1, 2, 7, 0, 5, 6, 4], cornerOriDelta = [2, 0, 0, 1, 1, 0, 0, 2],
      edgePerm = [11, 1, 2, 3, 8, 5, 6, 7, 0, 9, 10, 4],
      edgeOriDelta = [0, 0, 0, 0, 0, 0, 0, 0, 0, 0, 0, 0]\<rparr>"
  "ALL_MOVES Key_F =
     \<lparr>cornerPerm = [1, 5, 2, 3, 0, 4, 6, 7], cornerOriDelta = [1, 2, 0, 0, 2, 1, 0, 0],
      edgePerm = [0, 9, 2, 3, 4, 8, 6, 7, 1, 5, 10, 11],
      edgeOriDelta = [0, 1, 0, 0, 0, 1, 0, 0, 1, 1, 0, 0]\<rparr>"
  "ALL_MOVES Key_F2 =
     \<lparr>cornerPerm = [5, 4, 2, 3, 1, 0, 6, 7], cornerOriDelta = [0, 0, 0, 0, 0, 0, 0, 0],
      edgePerm = [0, 5, 2, 3, 4, 1, 6, 7, 9, 8, 10, 11],
      edgeOriDelta = [0, 0, 0, 0, 0, 0, 0, 0, 0, 0, 0, 0]\<rparr>"
  "ALL_MOVES Key_Fp =
     \<lparr>cornerPerm = [4, 0, 2, 3, 5, 1, 6, 7], cornerOriDelta = [1, 2, 0, 0, 2, 1, 0, 0],
      edgePerm = [0, 8, 2, 3, 4, 9, 6, 7, 5, 1, 10, 11],
      edgeOriDelta = [0, 1, 0, 0, 0, 1, 0, 0, 1, 1, 0, 0]\<rparr>"
  "ALL_MOVES Key_D =
     \<lparr>cornerPerm = [0, 1, 2, 3, 5, 6, 7, 4], cornerOriDelta = [0, 0, 0, 0, 0, 0, 0, 0],
      edgePerm = [0, 1, 2, 3, 5, 6, 7, 4, 8, 9, 10, 11],
      edgeOriDelta = [0, 0, 0, 0, 0, 0, 0, 0, 0, 0, 0, 0]\<rparr>"
  "ALL_MOVES Key_D2 =
     \<lparr>cornerPerm = [0, 1, 2, 3, 6, 7, 4, 5], cornerOriDelta = [0, 0, 0, 0, 0, 0, 0, 0],
      edgePerm = [0, 1, 2, 3, 6, 7, 4, 5, 8, 9, 10, 11],
      edgeOriDelta = [0, 0, 0, 0, 0, 0, 0, 0, 0, 0, 0, 0]\<rparr>"
  "ALL_MOVES Key_Dp =
     \<lparr>cornerPerm = [0, 1, 2, 3, 7, 4, 5, 6], cornerOriDelta = [0, 0, 0, 0, 0, 0, 0, 0],
      edgePerm = [0, 1, 2, 3, 7, 4, 5, 6, 8, 9, 10, 11],
      edgeOriDelta = [0, 0, 0, 0, 0, 0, 0, 0, 0, 0, 0, 0]\<rparr>"
  "ALL_MOVES Key_L =
     \<lparr>cornerPerm = [0, 2, 6, 3, 4, 1, 5, 7], cornerOriDelta = [0, 1, 2, 0, 0, 2, 1, 0],
      edgePerm = [0, 1, 10, 3, 4, 5, 9, 7, 8, 2, 6, 11],
      edgeOriDelta = [0, 0, 0, 0, 0, 0, 0, 0, 0, 0, 0, 0]\<rparr>"
  "ALL_MOVES Key_L2 =
     \<lparr>cornerPerm = [0, 6, 5, 3, 4, 2, 1, 7], cornerOriDelta = [0, 0, 0, 0, 0, 0, 0, 0],
      edgePerm = [0, 1, 6, 3, 4, 5, 2, 7, 8, 10, 9, 11],
      edgeOriDelta = [0, 0, 0, 0, 0, 0, 0, 0, 0, 0, 0, 0]\<rparr>"
  "ALL_MOVES Key_Lp =
     \<lparr>cornerPerm = [0, 5, 1, 3, 4, 6, 2, 7], cornerOriDelta = [0, 1, 2, 0, 0, 2, 1, 0],
      edgePerm = [0, 1, 9, 3, 4, 5, 10, 7, 8, 6, 2, 11],
      edgeOriDelta = [0, 0, 0, 0, 0, 0, 0, 0, 0, 0, 0, 0]\<rparr>"
  "ALL_MOVES Key_B =
     \<lparr>cornerPerm = [0, 1, 3, 6, 4, 5, 7, 2], cornerOriDelta = [0, 0, 1, 2, 0, 0, 2, 1],
      edgePerm = [0, 1, 2, 10, 4, 5, 6, 11, 8, 9, 3, 7],
      edgeOriDelta = [0, 0, 0, 1, 0, 0, 0, 1, 0, 0, 1, 1]\<rparr>"
  "ALL_MOVES Key_B2 =
     \<lparr>cornerPerm = [0, 1, 6, 7, 4, 5, 2, 3], cornerOriDelta = [0, 0, 0, 1, 0, 0, 0, 2],
      edgePerm = [0, 1, 2, 3, 4, 5, 6, 7, 8, 9, 10, 11],
      edgeOriDelta = [0, 0, 0, 0, 0, 0, 0, 0, 0, 0, 0, 0]\<rparr>"
  "ALL_MOVES Key_Bp =
     \<lparr>cornerPerm = [0, 1, 7, 2, 4, 5, 3, 6], cornerOriDelta = [0, 0, 2, 2, 0, 0, 1, 1],
      edgePerm = [0, 1, 2, 10, 4, 5, 6, 11, 8, 9, 3, 7],
      edgeOriDelta = [0, 0, 0, 1, 0, 0, 0, 1, 0, 0, 1, 1]\<rparr>"
  by (simp_all add: composeMoves_def invertMove_def invertStep_def createUMove_def createRMove_def
      createFMove_def createDMove_def createLMove_def createBMove_def upt_8 upt_12
      replicate_8 replicate_12)

lemma invertMove_ALL_MOVES_eval:
  "invertMove (ALL_MOVES Key_U) =
     \<lparr>cornerPerm = [1, 2, 3, 0, 4, 5, 6, 7], cornerOriDelta = [0, 0, 0, 0, 0, 0, 0, 0],
      edgePerm = [1, 2, 3, 0, 4, 5, 6, 7, 8, 9, 10, 11],
      edgeOriDelta = [0, 0, 0, 0, 0, 0, 0, 0, 0, 0, 0, 0]\<rparr>"
  "invertMove (ALL_MOVES Key_U2) =
     \<lparr>cornerPerm = [2, 3, 0, 1, 4, 5, 6, 7], cornerOriDelta = [0, 0, 0, 0, 0, 0, 0, 0],
      edgePerm = [2, 3, 0, 1, 4, 5, 6, 7, 8, 9, 10, 11],
      edgeOriDelta = [0, 0, 0, 0, 0, 0, 0, 0, 0, 0, 0, 0]\<rparr>"
  "invertMove (ALL_MOVES Key_Up) =
     \<lparr>cornerPerm = [3, 0, 1, 2, 4, 5, 6, 7], cornerOriDelta = [0, 0, 0, 0, 0, 0, 0, 0],
      edgePerm = [3, 0, 1, 2, 4, 5, 6, 7, 8, 9, 10, 11],
      edgeOriDelta = [0, 0, 0, 0, 0, 0, 0, 0, 0, 0, 0, 0]\<rparr>"
  "invertMove (ALL_MOVES Key_R) =
     \<lparr>cornerPerm = [3, 1, 2, 7, 0, 5, 6, 4], cornerOriDelta = [2, 0, 0, 1, 1, 0, 0, 2],
      edgePerm = [11, 1, 2, 3, 8, 5, 6, 7, 0, 9, 10, 4],
      edgeOriDelta = [0, 0, 0, 0, 0, 0, 0, 0, 0, 0, 0, 0]\<rparr>"
  "invertMove (ALL_MOVES Key_R2) =
     \<lparr>cornerPerm = [7, 1, 2, 4, 3, 5, 6, 0], cornerOriDelta = [0, 0, 0, 0, 0, 0, 0, 0],
      edgePerm = [4, 1, 2, 3, 0, 5, 6, 7, 11, 9, 10, 8],
      edgeOriDelta = [0, 0, 0, 0, 0, 0, 0, 0, 0, 0, 0, 0]\<rparr>"
  "invertMove (ALL_MOVES Key_Rp) =
     \<lparr>cornerPerm = [4, 1, 2, 0, 7, 5, 6, 3], cornerOriDelta = [2, 0, 0, 1, 1, 0, 0, 2],
      edgePerm = [8, 1, 2, 3, 11, 5, 6, 7, 4, 9, 10, 0],
      edgeOriDelta = [0, 0, 0, 0, 0, 0, 0, 0, 0, 0, 0, 0]\<rparr>"
  "invertMove (ALL_MOVES Key_F) =
     \<lparr>cornerPerm = [4, 0, 2, 3, 5, 1, 6, 7], cornerOriDelta = [1, 2, 0, 0, 2, 1, 0, 0],
      edgePerm = [0, 8, 2, 3, 4, 9, 6, 7, 5, 1, 10, 11],
      edgeOriDelta = [0, 1, 0, 0, 0, 1, 0, 0, 1, 1, 0, 0]\<rparr>"
  "invertMove (ALL_MOVES Key_F2) =
     \<lparr>cornerPerm = [5, 4, 2, 3, 1, 0, 6, 7], cornerOriDelta = [0, 0, 0, 0, 0, 0, 0, 0],
      edgePerm = [0, 5, 2, 3, 4, 1, 6, 7, 9, 8, 10, 11],
      edgeOriDelta = [0, 0, 0, 0, 0, 0, 0, 0, 0, 0, 0, 0]\<rparr>"
  "invertMove (ALL_MOVES Key_Fp) =
     \<lparr>cornerPerm = [1, 5, 2, 3, 0, 4, 6, 7], cornerOriDelta = [1, 2, 0, 0, 2, 1, 0, 0],
      edgePerm = [0, 9, 2, 3, 4, 8, 6, 7, 1, 5, 10, 11],
      edgeOriDelta = [0, 1, 0, 0, 0, 1, 0, 0, 1, 1, 0, 0]\<rparr>"
  "invertMove (ALL_MOVES Key_D) =
     \<lparr>cornerPerm = [0, 1, 2, 3, 7, 4, 5, 6], cornerOriDelta = [0, 0, 0, 0, 0, 0, 0, 0],
      edgePerm = [0, 1, 2, 3, 7, 4, 5, 6, 8, 9, 10, 11],
      edgeOriDelta = [0, 0, 0, 0, 0, 0, 0, 0, 0, 0, 0, 0]\<rparr>"
  "invertMove (ALL_MOVES Key_D2) =
     \<lparr>cornerPerm = [0, 1, 2, 3, 6, 7, 4, 5], cornerOriDelta = [0, 0, 0, 0, 0, 0, 0, 0],
      edgePerm = [0, 1, 2, 3, 6, 7, 4, 5, 8, 9, 10, 11],
      edgeOriDelta = [0, 0, 0, 0, 0, 0, 0, 0, 0, 0, 0, 0]\<rparr>"
  "invertMove (ALL_MOVES Key_Dp) =
     \<lparr>cornerPerm = [0, 1, 2, 3, 5, 6, 7, 4], cornerOriDelta = [0, 0, 0, 0, 0, 0, 0, 0],
      edgePerm = [0, 1, 2, 3, 5, 6, 7, 4, 8, 9, 10, 11],
      edgeOriDelta = [0, 0, 0, 0, 0, 0, 0, 0, 0, 0, 0, 0]\<rparr>"
  "invertMove (ALL_MOVES Key_L) =
     \<lparr>cornerPerm = [0, 5, 1, 3, 4, 6, 2, 7], cornerOriDelta = [0, 1, 2, 0, 0, 2, 1, 0],
      edgePerm = [0, 1, 9, 3, 4, 5, 10, 7, 8, 6, 2, 11],
      edgeOriDelta = [0, 0, 0, 0, 0, 0, 0, 0, 0, 0, 0, 0]\<rparr>"
  "invertMove (ALL_MOVES Key_L2) =
     \<lparr>cornerPerm = [0, 6, 5, 3, 4, 2, 1, 7], cornerOriDelta = [0, 0, 0, 0, 0, 0, 0, 0],
      edgePerm = [0, 1, 6, 3, 4, 5, 2, 7, 8, 10, 9, 11],
      edgeOriDelta = [0, 0, 0, 0, 0, 0, 0, 0, 0, 0, 0, 0]\<rparr>"
  "invertMove (ALL_MOVES Key_Lp) =
     \<lparr>cornerPerm = [0, 2, 6, 3, 4, 1, 5, 7], cornerOriDelta = [0, 1, 2, 0, 0, 2, 1, 0],
      edgePerm = [0, 1, 10, 3, 4, 5, 9, 7, 8, 2, 6, 11],
      edgeOriDelta = [0, 0, 0, 0, 0, 0, 0, 0, 0, 0, 0, 0]\<rparr>"
  "invertMove (ALL_MOVES Key_B) =
     \<lparr>cornerPerm = [0, 1, 7, 2, 4, 5, 3, 6], cornerOriDelta = [0, 0, 2, 2, 0, 0, 1, 1],
      edgePerm = [0, 1, 2, 10, 4, 5, 6, 11, 8, 9, 3, 7],
      edgeOriDelta = [0, 0, 0, 1, 0, 0, 0, 1, 0, 0, 1, 1]\<rparr>"
  "invertMove (ALL_MOVES Key_B2) =
     \<lparr>cornerPerm = [0, 1, 6, 7, 4, 5, 2, 3], cornerOriDelta = [0, 0, 0, 1, 0, 0, 0, 2],
      edgePerm = [0, 1, 2, 3, 4, 5, 6, 7, 8, 9, 10, 11],
      edgeOriDelta = [0, 0, 0, 0, 0, 0, 0, 0, 0, 0, 0, 0]\<rparr>"
  "invertMove (ALL_MOVES Key_Bp) =
     \<lparr>cornerPerm = [0, 1, 3, 6, 4, 5, 7, 2], cornerOriDelta = [0, 0, 1, 2, 0, 0, 2, 1],
      edgePerm = [0, 1, 2, 10, 4, 5, 6, 11, 8, 9, 3, 7],
      edgeOriDelta = [0, 0, 0, 1, 0, 0, 0, 1, 0, 0, 1, 1]\<rparr>"
  by (simp_all add: ALL_MOVES_eval invertMove_def invertStep_def upt_8 upt_12
      replicate_8 replicate_12 del: ALL_MOVES.simps)

lemma cubeShape_lists:
  assumes "cubeShape c"
  obtains p0 p1 p2 p3 p4 p5 p6 p7 o0 o1 o2 o3 o4 o5 o6 o7
    q0 q1 q2 q3 q4 q5 q6 q7 q8 q9 q10 q11 f0 f1 f2 f3 f4 f5 f6 f7 f8 f9 f10 f11
  where "c = \<lparr>cPerm = [p0, p1, p2, p3, p4, p5, p6, p7],
               cOri = [o0, o1, o2, o3, o4, o5, o6, o7],
               ePerm = [q0, q1, q2, q3, q4, q5, q6, q7, q8, q9, q10, q11],
               eOri = [f0, f1, f2, f3, f4, f5, f6, f7, f8, f9, f10, f11]\<rparr>"
proof -
  obtain ps os qs fs where c: "c = \<lparr>cPerm = ps, cOri = os, ePerm = qs, eOri = fs\<rparr>"
    by (cases c) auto
  from assms c obtain p0 p1 p2 p3 p4 p5 p6 p7 where ps: "ps = [p0, p1, p2, p3, p4, p5, p6, p7]"
    unfolding cubeShape_def length_8_conv by auto
  from assms c obtain o0 o1 o2 o3 o4 o5 o6 o7 where os: "os = [o0, o1, o2, o3, o4, o5, o6, o7]"
    unfolding cubeShape_def length_8_conv by auto
  from assms c obtain q0 q1 q2 q3 q4 q5 q6 q7 q8 q9 q10 q11
    where qs: "qs = [q0, q1, q2, q3, q4, q5, q6, q7, q8, q9, q10, q11]"
    unfolding cubeShape_def length_12_conv by auto
  from assms c obtain f0 f1 f2 f3 f4 f5 f6 f7 f8 f9 f10 f11
    where fs: "fs = [f0, f1, f2, f3, f4, f5, f6, f7, f8, f9, f10, f11]"
    unfolding cubeShape_def length_12_conv by auto
  show thesis
    by (rule that) (simp add: c ps os qs fs)
qed

lemma applyMove_invertMove_key:
  assumes "cubeShape c"
  shows "applyMove (applyMove c (ALL_MOVES k)) (invertMove (ALL_MOVES k)) = c"
proof -
  from assms obtain p0 p1 p2 p3 p4 p5 p6 p7 o0 o1 o2 o3 o4 o5 o6 o7
    q0 q1 q2 q3 q4 q5 q6 q7 q8 q9 q10 q11 f0 f1 f2 f3 f4 f5 f6 f7 f8 f9 f10 f11
    where c: "c = \<lparr>cPerm = [p0, p1, p2, p3, p4, p5, p6, p7],
               cOri = [o0, o1, o2, o3, o4, o5, o6, o7],
               ePerm = [q0, q1, q2, q3, q4, q5, q6, q7, q8, q9, q10, q11],
               eOri = [f0, f1, f2, f3, f4, f5, f6, f7, f8, f9, f10, f11]\<rparr>"
    by (rule cubeShape_lists)
  from assms have lt: "o0 < 3" "o1 < 3" "o2 < 3" "o3 < 3" "o4 < 3" "o5 < 3" "o6 < 3" "o7 < 3"
    by (simp_all add: cubeShape_def c)
  show ?thesis
    unfolding c using lt
    by (cases k; simp only: invertMove_ALL_MOVES_eval; simp only: ALL_MOVES_eval)
      (simp_all add: applyMove_def upt_8 upt_12 mod_simps xor.assoc)
qed

lemma isInG1_D:
  assumes "isInG1 cube"
  shows "12 \<le> length (eOri cube)" "\<And>i. i < 12 \<Longrightarrow> eOri cube ! i = 0"
    "12 \<le> length (ePerm cube)"
    "{8, 9, 10, 11} \<subseteq> {ePerm cube ! 8, ePerm cube ! 9, ePerm cube ! 10, ePerm cube ! 11}"
proof -
  from assms have a: "list_all (\<lambda>i. js_nth (eOri cube) i = Some 0) [0..<12]"
    and b: "list_all (\<lambda>edge. Some edge \<in> set (map (\<lambda>pos. js_nth (ePerm cube) pos) [8, 9, 10, 11])) E_EDGES"
    by (auto simp: isInG1_def Let_def split: if_splits)
  from a have a': "\<And>i. i < 12 \<Longrightarrow> js_nth (eOri cube) i = Some 0"
    by (simp add: list_all_iff)
  from a' [of 11] show "12 \<le> length (eOri cube)"
    by (simp add: js_nth_def split: if_splits)
  fix i :: nat assume "i < 12"
  from a' [OF this] show "eOri cube ! i = 0"
    by (simp add: js_nth_def split: if_splits)
next
  from assms have b: "list_all (\<lambda>edge. Some edge \<in> set (map (\<lambda>pos. js_nth (ePerm cube) pos) [8, 9, 10, 11])) E_EDGES"
    by (auto simp: isInG1_def Let_def split: if_splits)
  show len: "12 \<le> length (ePerm cube)"
  proof (rule ccontr)
    assume "\<not> 12 \<le> length (ePerm cube)"
    then have "js_nth (ePerm cube) 11 = None"
      by (simp add: js_nth_def)
    with b have "{Some 8, Some 9, Some 10, Some 11}
        \<subseteq> {js_nth (ePerm cube) 8, js_nth (ePerm cube) 9, js_nth (ePerm cube) 10}"
      by (auto simp: E_EDGES_def)
    then have "card {Some (8::nat), Some 9, Some 10, Some 11}
        \<le> card {js_nth (ePerm cube) 8, js_nth (ePerm cube) 9, js_nth (ePerm cube) 10}"
      by (intro card_mono) simp_all
    also have "\<dots> \<le> 3"
      by (simp add: card_insert_if)
    finally show False
      by simp
  qed
  with b show "{8, 9, 10, 11} \<subseteq> {ePerm cube ! 8, ePerm cube ! 9, ePerm cube ! 10, ePerm cube ! 11}"
    by (simp add: E_EDGES_def js_nth_def)
qed

lemma isInG1_I:
  assumes "12 \<le> length (eOri cube)" "\<And>i. i < 12 \<Longrightarrow> eOri cube ! i = 0"
    "12 \<le> length (ePerm cube)"
    "{8, 9, 10, 11} \<subseteq> {ePerm cube ! 8, ePerm cube ! 9, ePerm cube ! 10, ePerm cube ! 11}"
  shows "isInG1 cube"
  using assms by (simp add: isInG1_def E_EDGES_def js_nth_def list_all_iff)

lemma isInG1_applyMove_key:
  assumes "isInG1 cube"
    and "k \<in> {Key_U, Key_U2, Key_Up, Key_D, Key_D2, Key_Dp, Key_R2, Key_L2, Key_F2, Key_B2}"
  shows "isInG1 (applyMove cube (ALL_MOVES k))"
proof (rule isInG1_I)
  note d = isInG1_D [OF assms(1)]
  have z: "eOri cube ! 0 = 0" "eOri cube ! 1 = 0" "eOri cube ! 2 = 0" "eOri cube ! 3 = 0"
    "eOri cube ! 4 = 0" "eOri cube ! 5 = 0" "eOri cube ! 6 = 0" "eOri cube ! 7 = 0"
    "eOri cube ! 8 = 0" "eOri cube ! 9 = 0" "eOri cube ! 10 = 0" "eOri cube ! 11 = 0"
    "eOri cube ! Suc 0 = 0"
    by (simp_all add: d(2))
  show "12 \<le> length (eOri (applyMove cube (ALL_MOVES k)))"
    by (simp add: applyMove_def)
  show "12 \<le> length (ePerm (applyMove cube (ALL_MOVES k)))"
    by (simp add: applyMove_def)
  have e: "eOri (applyMove cube (ALL_MOVES k)) = [0, 0, 0, 0, 0, 0, 0, 0, 0, 0, 0, 0]"
    using assms(2)
    by (elim insertE emptyE; simp only: ALL_MOVES_eval) (simp_all add: applyMove_def upt_12 z)
  show "eOri (applyMove cube (ALL_MOVES k)) ! i = 0" if "i < 12" for i
  proof -
    from that have "i \<in> {0, 1, 2, 3, 4, 5, 6, 7, 8, 9, 10, 11}"
      by (simp add: insert_iff) arith
    then show ?thesis
      unfolding e by (elim insertE emptyE) simp_all
  qed
  have "set (map (\<lambda>i. ePerm (applyMove cube (ALL_MOVES k)) ! i) [8, 9, 10, 11])
      = set (map (\<lambda>i. ePerm cube ! i) [8, 9, 10, 11])"
    using assms(2)
    by (elim insertE emptyE; simp only: ALL_MOVES_eval)
      (simp_all add: applyMove_def upt_12 insert_commute)
  with d(4)
  show "{8, 9, 10, 11} \<subseteq>
      {ePerm (applyMove cube (ALL_MOVES k)) ! 8, ePerm (applyMove cube (ALL_MOVES k)) ! 9,
       ePerm (applyMove cube (ALL_MOVES k)) ! 10, ePerm (applyMove cube (ALL_MOVES k)) ! 11}"
    by simp
qed

subsection \<open>The twisted-corner cube\<close>

lemma upt_4: "[0..<4] = [0, 1, 2, 3]"
  by (simp add: upt_rec)

lemma upt_7: "[0..<7] = [0, 1, 2, 3, 4, 5, 6]"
  by (simp add: upt_rec)

lemma upt_11: "[0..<11] = [0, 1, 2, 3, 4, 5, 6, 7, 8, 9, 10]"
  by (simp add: upt_rec)

lemma binomial_top:
  "binomial 11 4 = 330" "binomial 10 3 = 120" "binomial 9 2 = 36" "binomial 8 1 = 8"
  by (simp_all add: binomial_def upt_rec)

lemma getPhase1Coord_twistedCornerCube:
  "getPhase1Coord twistedCornerCube = \<lparr>eo = Some 0, co = Some 1215, eslice = Some 0\<rparr>"
  by (simp add: getPhase1Coord_def getEdgeOrientation_def getCornerOrientation_def getESlice_def
      getESliceStep_def twistedCornerCube_def solvedCube_def upt_7 upt_11 upt_12 binomial_top)

lemma getPhase2Coord_twistedCornerCube:
  "getPhase2Coord twistedCornerCube = \<lparr>cp = Some 0, udep = Some 0, ep = Some 0\<rparr>"
  by (simp add: getPhase2Coord_def getCornerPermutation_def getUDEdgePermutation_def
      getESlicePermutation_def twistedCornerCube_def solvedCube_def upt_4 del: fact_Suc)

lemma isValidPermutation_identity:
  "isValidPermutation [0, 1, 2, 3, 4, 5, 6, 7] 8"
  "isValidPermutation [0, 1, 2, 3, 4, 5, 6, 7, 8, 9, 10, 11] 12"
  by (simp_all add: isValidPermutation_def replicate_8 replicate_12)

lemma parityOfPermutation_identity:
  "parityOfPermutation [0, 1, 2, 3, 4, 5, 6, 7] = 0"
  "parityOfPermutation [0, 1, 2, 3, 4, 5, 6, 7, 8, 9, 10, 11] = 0"
  by (simp_all add: parityOfPermutation_def parityStep_def replicate_8 replicate_12 upt_8 upt_12
      traceCycle.simps Let_def)

lemma isValidCube_twistedCornerCube: "isValidCube twistedCornerCube"
  using isValidPermutation_identity parityOfPermutation_identity
  by (simp add: isValidCube_def twistedCornerCube_def solvedCube_def)

lemma isInG1_twistedCornerCube: "isInG1 twistedCornerCube"
  by (simp add: isInG1_def twistedCornerCube_def solvedCube_def js_nth_def E_EDGES_def upt_12)

lemma not_isSolved_twistedCornerCube: "\<not> isSolved twistedCornerCube"
  by (simp add: isSolved_def cubesEqual_def twistedCornerCube_def solvedCube_def)

text \<open>
  On this cube \<open>solve\<close> runs no search at all: phase 1 sees a cube in G1, phase 2 a
  coordinate that is all 0, and the verification of the empty solution fails.
\<close>

lemma solveBody_twistedCornerCube:
  "answer (solveBody cfg g clk twistedCornerCube)
     = ([], [], [], [], False, Some SolutionVerificationFailed)"
  by (simp add: solveBody_def solvePhase1_def solvePhase2_def searchPhase2_def
      isInG1_twistedCornerCube not_isSolved_twistedCornerCube getPhase2Coord_twistedCornerCube
      emptySolution_def zeroStats_def moveIndicesToKeys_def verifySolution_def answer_def
      invertMoveSequence_def Let_def)

lemma moveShape_ALL_MOVES: "moveShape (ALL_MOVES k)"
  by (cases k; simp only: ALL_MOVES_eval)
    (simp_all add: moveShape_def upt_8 upt_12 del: mset_upt)

lemma map_nth_perm:
  assumes "mset s = mset [0..<n]" and "length xs = n"
  shows "mset (map (\<lambda>i. xs ! (s ! i)) [0..<n]) = mset xs"
proof -
  from assms(1) have "length s = length [0..<n]"
    by (rule mset_eq_length)
  then have len: "length s = n"
    by simp
  have "map (\<lambda>i. xs ! (s ! i)) [0..<n] = map ((!) xs) (map ((!) s) [0..<n])"
    by simp
  also have "map ((!) s) [0..<n] = s"
    using map_nth [of s] len by simp
  finally have "mset (map (\<lambda>i. xs ! (s ! i)) [0..<n]) = image_mset ((!) xs) (mset s)"
    by simp
  also have "\<dots> = image_mset ((!) xs) (mset [0..<n])"
    by (simp only: assms(1))
  also have "\<dots> = mset (map ((!) xs) [0..<n])"
    by (simp del: mset_upt)
  also have "map ((!) xs) [0..<n] = xs"
    using map_nth [of xs] assms(2) by simp
  finally show ?thesis .
qed

lemma sum_list_perm:
  assumes "mset s = mset [0..<n]" and "length xs = n"
  shows "sum_list (map (\<lambda>i. xs ! (s ! i)) [0..<n]) = sum_list (xs :: nat list)"
proof -
  have "sum_list (map (\<lambda>i. xs ! (s ! i)) [0..<n]) = sum_mset (mset (map (\<lambda>i. xs ! (s ! i)) [0..<n]))"
    by (simp only: sum_mset_sum_list)
  also have "\<dots> = sum_mset (mset xs)"
    by (simp only: map_nth_perm [OF assms])
  also have "\<dots> = sum_list xs"
    by (simp only: sum_mset_sum_list)
  finally show ?thesis .
qed

lemma cPerm_applyMove_mset:
  assumes "moveShape m" "length (cPerm c) = 8"
  shows "mset (cPerm (applyMove c m)) = mset (cPerm c)"
proof -
  have "mset (cornerPerm m) = mset [0..<8]"
    using assms(1) by (simp only: moveShape_def)
  from map_nth_perm [OF this assms(2)] show ?thesis
    by (simp only: applyMove_def Cube.simps)
qed

lemma ePerm_applyMove_mset:
  assumes "moveShape m" "length (ePerm c) = 12"
  shows "mset (ePerm (applyMove c m)) = mset (ePerm c)"
proof -
  have "mset (edgePerm m) = mset [0..<12]"
    using assms(1) by (simp only: moveShape_def)
  from map_nth_perm [OF this assms(2)] show ?thesis
    by (simp only: applyMove_def Cube.simps)
qed

lemma sum_list_map_mod:
  "sum_list (map (\<lambda>x. f x mod k) xs) mod k = sum_list (map f xs) mod (k::nat)"
proof (induction xs)
  case Nil
  show ?case by simp
next
  case (Cons a xs)
  have "sum_list (map (\<lambda>x. f x mod k) (a # xs)) mod k
      = (f a mod k + sum_list (map (\<lambda>x. f x mod k) xs) mod k) mod k"
    by (simp add: mod_simps)
  also have "\<dots> = (f a mod k + sum_list (map f xs) mod k) mod k"
    by (simp only: Cons.IH)
  also have "\<dots> = sum_list (map f (a # xs)) mod k"
    by (simp add: mod_simps)
  finally show ?case .
qed

lemma sum_list_map_add:
  "sum_list (map (\<lambda>x. f x + g x) xs) = sum_list (map f xs) + sum_list (map g xs :: nat list)"
  by (induction xs) simp_all

lemma sum_with_delta:
  assumes s: "mset s = mset [0..<n]" and xs: "length xs = n" and d: "length d = n"
    and z: "sum_list d mod k = 0"
  shows "sum_list (map (\<lambda>i. xs ! (s ! i) + d ! i) [0..<n]) mod k = sum_list xs mod (k::nat)"
proof -
  have "sum_list (map (\<lambda>i. xs ! (s ! i) + d ! i) [0..<n])
      = sum_list (map (\<lambda>i. xs ! (s ! i)) [0..<n]) + sum_list (map ((!) d) [0..<n])"
    by (rule sum_list_map_add)
  also have "sum_list (map (\<lambda>i. xs ! (s ! i)) [0..<n]) = sum_list xs"
    by (rule sum_list_perm [OF s xs])
  also have "map ((!) d) [0..<n] = d"
    using map_nth [of d] d by simp
  finally have "sum_list (map (\<lambda>i. xs ! (s ! i) + d ! i) [0..<n]) mod k
      = (sum_list xs + sum_list d) mod k"
    by simp
  also have "\<dots> = (sum_list xs + sum_list d mod k) mod k"
    by (simp add: mod_simps)
  also have "\<dots> = sum_list xs mod k"
    by (simp add: z)
  finally show ?thesis .
qed

lemma cOri_sum_applyMove:
  assumes "moveShape m" "length (cOri c) = 8"
  shows "sum_list (cOri (applyMove c m)) mod 3 = sum_list (cOri c) mod 3"
proof -
  have "sum_list (cOri (applyMove c m)) mod 3
      = sum_list (map (\<lambda>i. cOri c ! (cornerPerm m ! i) + cornerOriDelta m ! i) [0..<8]) mod 3"
    by (simp add: applyMove_def sum_list_map_mod)
  also have "\<dots> = sum_list (cOri c) mod 3"
    using assms by (intro sum_with_delta) (simp_all only: moveShape_def)
  finally show ?thesis .
qed

lemma xor_mod_2: "(a XOR b) mod 2 = (a + b) mod (2::nat)"
  by (simp add: mod_2_eq_odd even_xor_iff)

lemma eOri_sum_applyMove:
  assumes "moveShape m" "length (eOri c) = 12"
  shows "sum_list (eOri (applyMove c m)) mod 2 = sum_list (eOri c) mod 2"
proof -
  have "sum_list (eOri (applyMove c m)) mod 2
      = sum_list (map (\<lambda>i. (eOri c ! (edgePerm m ! i) XOR edgeOriDelta m ! i) mod 2) [0..<12]) mod 2"
    by (simp add: applyMove_def sum_list_map_mod)
  also have "\<dots> = sum_list (map (\<lambda>i. (eOri c ! (edgePerm m ! i) + edgeOriDelta m ! i) mod 2) [0..<12]) mod 2"
    by (simp only: xor_mod_2)
  also have "\<dots> = sum_list (map (\<lambda>i. eOri c ! (edgePerm m ! i) + edgeOriDelta m ! i) [0..<12]) mod 2"
    by (rule sum_list_map_mod)
  also have "\<dots> = sum_list (eOri c) mod 2"
    using assms by (intro sum_with_delta) (simp_all only: moveShape_def)
  finally show ?thesis .
qed

subsection \<open>Initialisation does not throw\<close>

lemma tableLookup_Inr:
  "moveIdx < length table \<Longrightarrow> \<exists>r. tableLookup table coord moveIdx = Inr r"
  by (simp add: tableLookup_def)

lemma bfsMoves_Inr:
  assumes "\<And>c m. m \<in> set ms \<Longrightarrow> \<exists>r. f c m = Inr r"
  shows "\<exists>st'. bfsMoves f c d st ms = Inr st'"
  using assms
proof (induction ms arbitrary: st)
  case Nil
  show ?case by (simp add: bfsMoves_def)
next
  case (Cons m ms)
  obtain r where r: "f (Some c) m = Inr r"
    using Cons.prems [of m "Some c"] by auto
  obtain s where s: "bfsVisit f c d st m = Inr s"
    by (simp add: bfsVisit_def r)
  have "\<exists>st'. bfsMoves f c d s ms = Inr st'"
    by (rule Cons.IH) (simp add: Cons.prems)
  then show ?case
    by (simp add: bfsMoves_def s)
qed

lemma bfsLoop_Inr:
  assumes "\<And>c m. m \<in> set ms \<Longrightarrow> \<exists>r. f c m = Inr r"
  shows "\<exists>t. bfsLoop f ms table queue head = Inr t"
  using assms
proof (induction f ms table queue head rule: bfsLoop.induct)
  case (1 f ms table queue head)
  show ?case
  proof (cases "head < length queue")
    case False
    then show ?thesis
      by (subst bfsLoop.simps) simp
  next
    case True
    show ?thesis
    proof (cases "case tableGet table (Some (queue ! head)) of Some d \<Rightarrow> d \<ge> MAX_DISTANCE - 1
                  | None \<Rightarrow> False")
      case far: True
      have "\<exists>t. bfsLoop f ms table queue (head + 1) = Inr t"
        using "1.IH"(1) [OF True refl refl far] "1.prems" by blast
      then show ?thesis
        using True far by (subst bfsLoop.simps) (simp add: Let_def)
    next
      case near: False
      obtain st where st: "bfsMoves f (queue ! head)
          (map_option (\<lambda>d. d + 1) (tableGet table (Some (queue ! head)))) (table, queue) ms = Inr st"
        using bfsMoves_Inr [of ms f] "1.prems" by blast
      have "\<exists>t. bfsLoop f ms (fst st) (snd st) (head + 1) = Inr t"
        using "1.IH"(2) [OF True refl refl near refl st] "1.prems" by blast
      then show ?thesis
        using True near st by (subst bfsLoop.simps) (simp add: Let_def)
    qed
  qed
qed

lemma prepareTable_Inr:
  assumes ready: "tablesReady (globals rt)"
    and put: "\<And>t g. tablesReady g \<Longrightarrow> tablesReady (putT t g)"
    and func: "\<And>g c m. tablesReady g \<Longrightarrow> m < 18 \<Longrightarrow> \<exists>r. func g c m = Inr r"
    and allowed: "\<And>m. m \<in> set allowed \<Longrightarrow> m < 18"
  shows "\<exists>rt'. prepareTable getT putT func allowed (Inr rt) = Inr rt' \<and> tablesReady (globals rt')"
proof (cases "loadPruningTable (cache rt) (getT (globals rt))")
  case (Some loaded)
  then show ?thesis
    by (simp add: prepareTable_def put ready)
next
  case None
  have "\<exists>built. bfsLoop (func (globals rt)) allowed
          (tableSet (getT (globals rt)) (Some 0) (Some 0)) [0] 0 = Inr built"
    by (rule bfsLoop_Inr) (simp add: func ready allowed)
  then obtain built where
    "buildPruningTable (getT (globals rt)) (func (globals rt)) 0 allowed = Inr built"
    unfolding buildPruningTable_def by blast
  then show ?thesis
    by (simp add: prepareTable_def None put ready)
qed

lemma allowed_lt_18:
  "m \<in> set defaultAllowedMoves \<Longrightarrow> m < 18" "m \<in> set PHASE2_MOVES \<Longrightarrow> m < 18"
  by (auto simp: defaultAllowedMoves_def PHASE2_MOVES_def)

lemma applyMoveTo_Inr:
  assumes "tablesReady g" "m < 18"
  shows "\<exists>r. applyMoveToEO g c m = Inr r" "\<exists>r. applyMoveToCO g c m = Inr r"
    "\<exists>r. applyMoveToESlice g c m = Inr r" "\<exists>r. applyMoveToCP g c m = Inr r"
    "\<exists>r. applyMoveToUDEP g c m = Inr r" "\<exists>r. applyMoveToEP g c m = Inr r"
    "\<exists>r. applyMoveToCP_EP g c m = Inr r" "\<exists>r. applyMoveToUDEP_EP g c m = Inr r"
  using assms
  by (simp_all add: tablesReady_def applyMoveToEO_def applyMoveToCO_def applyMoveToESlice_def
      applyMoveToCP_def applyMoveToUDEP_def applyMoveToEP_def applyMoveToCP_EP_def
      applyMoveToUDEP_EP_def tableLookup_def Let_def)

lemma tablesReady_initializeMoveTables: "tablesReady (initializeMoveTables g)"
  by (simp add: tablesReady_def initializeMoveTables_def buildCoordinateMoveTable_def)

lemma tablesReady_put:
  "tablesReady (g\<lparr>EOPruningTable := t\<rparr>) = tablesReady g"
  "tablesReady (g\<lparr>COPruningTable := t\<rparr>) = tablesReady g"
  "tablesReady (g\<lparr>ESlicePruningTable := t\<rparr>) = tablesReady g"
  "tablesReady (g\<lparr>CPPruningTable := t\<rparr>) = tablesReady g"
  "tablesReady (g\<lparr>UDEPPruningTable := t\<rparr>) = tablesReady g"
  "tablesReady (g\<lparr>EPPruningTable := t\<rparr>) = tablesReady g"
  "tablesReady (g\<lparr>CP_EP_PruningTable := t\<rparr>) = tablesReady g"
  "tablesReady (g\<lparr>UDEP_EP_PruningTable := t\<rparr>) = tablesReady g"
  by (simp_all add: tablesReady_def)

lemma initializePruningTables_ready:
  "\<exists>rt'. initializePruningTables rt = Inr rt' \<and> tablesReady (globals rt')"
proof -
  define r0 where "r0 = rt\<lparr>globals := initializeMoveTables (globals rt)\<rparr>"
  have r0: "tablesReady (globals r0)"
    by (simp add: r0_def tablesReady_initializeMoveTables)
  have "\<exists>r. prepareTable EOPruningTable (\<lambda>t g. g\<lparr>EOPruningTable := t\<rparr>) applyMoveToEO defaultAllowedMoves (Inr r0) = Inr r
          \<and> tablesReady (globals r)"
    using r0 by (rule prepareTable_Inr) (simp_all add: tablesReady_put applyMoveTo_Inr allowed_lt_18)
  then obtain r1 where s1: "prepareTable EOPruningTable (\<lambda>t g. g\<lparr>EOPruningTable := t\<rparr>) applyMoveToEO defaultAllowedMoves (Inr r0) = Inr r1"
    and r1: "tablesReady (globals r1)"
    by blast
  have "\<exists>r. prepareTable COPruningTable (\<lambda>t g. g\<lparr>COPruningTable := t\<rparr>) applyMoveToCO defaultAllowedMoves (Inr r1) = Inr r
          \<and> tablesReady (globals r)"
    using r1 by (rule prepareTable_Inr) (simp_all add: tablesReady_put applyMoveTo_Inr allowed_lt_18)
  then obtain r2 where s2: "prepareTable COPruningTable (\<lambda>t g. g\<lparr>COPruningTable := t\<rparr>) applyMoveToCO defaultAllowedMoves (Inr r1) = Inr r2"
    and r2: "tablesReady (globals r2)"
    by blast
  have "\<exists>r. prepareTable ESlicePruningTable (\<lambda>t g. g\<lparr>ESlicePruningTable := t\<rparr>) applyMoveToESlice defaultAllowedMoves (Inr r2) = Inr r
          \<and> tablesReady (globals r)"
    using r2 by (rule prepareTable_Inr) (simp_all add: tablesReady_put applyMoveTo_Inr allowed_lt_18)
  then obtain r3 where s3: "prepareTable ESlicePruningTable (\<lambda>t g. g\<lparr>ESlicePruningTable := t\<rparr>) applyMoveToESlice defaultAllowedMoves (Inr r2) = Inr r3"
    and r3: "tablesReady (globals r3)"
    by blast
  have "\<exists>r. prepareTable CPPruningTable (\<lambda>t g. g\<lparr>CPPruningTable := t\<rparr>) applyMoveToCP PHASE2_MOVES (Inr r3) = Inr r
          \<and> tablesReady (globals r)"
    using r3 by (rule prepareTable_Inr) (simp_all add: tablesReady_put applyMoveTo_Inr allowed_lt_18)
  then obtain r4 where s4: "prepareTable CPPruningTable (\<lambda>t g. g\<lparr>CPPruningTable := t\<rparr>) applyMoveToCP PHASE2_MOVES (Inr r3) = Inr r4"
    and r4: "tablesReady (globals r4)"
    by blast
  have "\<exists>r. prepareTable UDEPPruningTable (\<lambda>t g. g\<lparr>UDEPPruningTable := t\<rparr>) applyMoveToUDEP PHASE2_MOVES (Inr r4) = Inr r
          \<and> tablesReady (globals r)"
    using r4 by (rule prepareTable_Inr) (simp_all add: tablesReady_put applyMoveTo_Inr allowed_lt_18)
  then obtain r5 where s5: "prepareTable UDEPPruningTable (\<lambda>t g. g\<lparr>UDEPPruningTable := t\<rparr>) applyMoveToUDEP PHASE2_MOVES (Inr r4) = Inr r5"
    and r5: "tablesReady (globals r5)"
    by blast
  have "\<exists>r. prepareTable EPPruningTable (\<lambda>t g. g\<lparr>EPPruningTable := t\<rparr>) applyMoveToEP PHASE2_MOVES (Inr r5) = Inr r
          \<and> tablesReady (globals r)"
    using r5 by (rule prepareTable_Inr) (simp_all add: tablesReady_put applyMoveTo_Inr allowed_lt_18)
  then obtain r6 where s6: "prepareTable EPPruningTable (\<lambda>t g. g\<lparr>EPPruningTable := t\<rparr>) applyMoveToEP PHASE2_MOVES (Inr r5) = Inr r6"
    and r6: "tablesReady (globals r6)"
    by blast
  have "\<exists>r. prepareTable CP_EP_PruningTable (\<lambda>t g. g\<lparr>CP_EP_PruningTable := t\<rparr>) applyMoveToCP_EP PHASE2_MOVES (Inr r6) = Inr r
          \<and> tablesReady (globals r)"
    using r6 by (rule prepareTable_Inr) (simp_all add: tablesReady_put applyMoveTo_Inr allowed_lt_18)
  then obtain r7 where s7: "prepareTable CP_EP_PruningTable (\<lambda>t g. g\<lparr>CP_EP_PruningTable := t\<rparr>) applyMoveToCP_EP PHASE2_MOVES (Inr r6) = Inr r7"
    and r7: "tablesReady (globals r7)"
    by blast
  have "\<exists>r. prepareTable UDEP_EP_PruningTable (\<lambda>t g. g\<lparr>UDEP_EP_PruningTable := t\<rparr>) applyMoveToUDEP_EP PHASE2_MOVES (Inr r7) = Inr r
          \<and> tablesReady (globals r)"
    using r7 by (rule prepareTable_Inr) (simp_all add: tablesReady_put applyMoveTo_Inr allowed_lt_18)
  then obtain r8 where s8: "prepareTable UDEP_EP_PruningTable (\<lambda>t g. g\<lparr>UDEP_EP_PruningTable := t\<rparr>) applyMoveToUDEP_EP PHASE2_MOVES (Inr r7) = Inr r8"
    and r8: "tablesReady (globals r8)"
    by blast
  show ?thesis
    by (simp add: initializePruningTables_def Let_def r0_def [symmetric] s1 s2 s3 s4 s5 s6 s7 s8 r8)
qed

lemma initializePruningTables_Inr: "\<exists>rt'. initializePruningTables rt = Inr rt'"
  using initializePruningTables_ready [of rt] by blast

subsection \<open>The answer does not depend on the clock\<close>

lemma deepenPhase1_elapsed:
  "deepenPhase1 g e1 c md l n
     = map_sum (\<lambda>e. e) (map_option (\<lambda>r. r\<lparr>timeMs := e1\<rparr>)) (deepenPhase1 g e2 c md l n)"
proof (induction g e2 c md l n rule: deepenPhase1.induct)
  case (1 g e2 c md l n)
  show ?case
    apply (subst deepenPhase1.simps)
    apply (subst (2) deepenPhase1.simps)
    using 1 apply (auto split: option.splits sum.splits)
    done
qed

lemma deepenPhase2_elapsed:
  "deepenPhase2 g e1 c md l n
     = map_sum (\<lambda>e. e) (map_option (\<lambda>r. r\<lparr>timeMs := e1\<rparr>)) (deepenPhase2 g e2 c md l n)"
proof (induction g e2 c md l n rule: deepenPhase2.induct)
  case (1 g e2 c md l n)
  show ?case
    apply (subst deepenPhase2.simps)
    apply (subst (2) deepenPhase2.simps)
    using 1 apply (auto split: option.splits sum.splits)
    done
qed

lemma searchPhase1_elapsed:
  "searchPhase1 g e1 c md
     = map_sum (\<lambda>e. e) (map_option (\<lambda>r. r\<lparr>timeMs := e1\<rparr>)) (searchPhase1 g e2 c md)"
  using deepenPhase1_elapsed [of g e1 c md _ 0 e2]
  by (auto simp: searchPhase1_def split: option.splits)

lemma searchPhase2_elapsed:
  "searchPhase2 g e1 c md
     = map_sum (\<lambda>e. e) (map_option (\<lambda>r. r\<lparr>timeMs := e1\<rparr>)) (searchPhase2 g e2 c md)"
  using deepenPhase2_elapsed [of g e1 c md _ 0 e2]
  by (auto simp: searchPhase2_def split: option.splits)

text \<open>Two phase results that differ in the statistics at most.\<close>

lemma solvePhase1_answer:
  assumes "maxPhase1Depth cfg1 = maxPhase1Depth cfg2"
  shows "rel_sum (=) (\<lambda>a b. \<exists>s. a = b\<lparr>stats := s\<rparr>)
           (solvePhase1 cfg1 g clk1 c) (solvePhase1 cfg2 g clk2 c)"
proof (cases "isInG1 c")
  case True
  then show ?thesis
    by (auto simp: solvePhase1_def intro: exI [of _ zeroStats] simp: emptySolution_def)
next
  case False
  show ?thesis
  proof (cases "searchPhase1 g (phase1Elapsed clk2) (getPhase1Coord c) (maxPhase1Depth cfg2)")
    case (Inl e)
    then show ?thesis
      using False assms
        searchPhase1_elapsed [of g "phase1Elapsed clk1" "getPhase1Coord c" "maxPhase1Depth cfg2"
          "phase1Elapsed clk2"]
      by (simp add: solvePhase1_def)
  next
    case (Inr r)
    then show ?thesis
      using False assms
        searchPhase1_elapsed [of g "phase1Elapsed clk1" "getPhase1Coord c" "maxPhase1Depth cfg2"
          "phase1Elapsed clk2"]
      by (cases r) (simp_all add: solvePhase1_def emptySolution_def Let_def)
  qed
qed

lemma solvePhase2_answer:
  assumes "maxPhase2Depth cfg1 = maxPhase2Depth cfg2"
  shows "rel_sum (=) (\<lambda>a b. \<exists>s. a = b\<lparr>stats := s\<rparr>)
           (solvePhase2 cfg1 g clk1 c) (solvePhase2 cfg2 g clk2 c)"
proof (cases "isSolved c")
  case True
  then show ?thesis
    by (auto simp: solvePhase2_def intro: exI [of _ zeroStats] simp: emptySolution_def)
next
  case False
  show ?thesis
  proof (cases "searchPhase2 g (phase2Elapsed clk2) (getPhase2Coord c) (maxPhase2Depth cfg2)")
    case (Inl e)
    then show ?thesis
      using False assms
        searchPhase2_elapsed [of g "phase2Elapsed clk1" "getPhase2Coord c" "maxPhase2Depth cfg2"
          "phase2Elapsed clk2"]
      by (simp add: solvePhase2_def)
  next
    case (Inr r)
    then show ?thesis
      using False assms
        searchPhase2_elapsed [of g "phase2Elapsed clk1" "getPhase2Coord c" "maxPhase2Depth cfg2"
          "phase2Elapsed clk2"]
      by (cases r) (simp_all add: solvePhase2_def emptySolution_def Let_def)
  qed
qed

lemma solveBody_answer:
  assumes "maxPhase1Depth cfg1 = maxPhase1Depth cfg2" "maxPhase2Depth cfg1 = maxPhase2Depth cfg2"
  shows "answer (solveBody cfg1 g clk1 c) = answer (solveBody cfg2 g clk2 c)"
proof (cases "solvePhase1 cfg2 g clk2 c")
  case (Inl e)
  with solvePhase1_answer [OF assms(1), of g clk1 c clk2]
  have "solvePhase1 cfg1 g clk1 c = Inl e"
    by (cases "solvePhase1 cfg1 g clk1 c") simp_all
  with Inl show ?thesis
    by (simp add: solveBody_def answer_def emptySolution_def)
next
  case (Inr p2)
  with solvePhase1_answer [OF assms(1), of g clk1 c clk2]
  obtain s1 where p1: "solvePhase1 cfg1 g clk1 c = Inr (p2\<lparr>stats := s1\<rparr>)"
    by (cases "solvePhase1 cfg1 g clk1 c") auto
  define i where "i = foldl (\<lambda>c moveKey. applyMove c (getMoveByKey moveKey)) c (phase1Moves p2)"
  show ?thesis
  proof (cases "solvePhase2 cfg2 g clk2 i")
    case e: (Inl e)
    with solvePhase2_answer [OF assms(2), of g clk1 i clk2]
    have "solvePhase2 cfg1 g clk1 i = Inl e"
      by (cases "solvePhase2 cfg1 g clk1 i") simp_all
    with e Inr p1 show ?thesis
      by (simp add: solveBody_def answer_def emptySolution_def Let_def i_def [symmetric])
  next
    case q: (Inr q2)
    with solvePhase2_answer [OF assms(2), of g clk1 i clk2]
    obtain s2 where q1: "solvePhase2 cfg1 g clk1 i = Inr (q2\<lparr>stats := s2\<rparr>)"
      by (cases "solvePhase2 cfg1 g clk1 i") auto
    from q q1 Inr p1 show ?thesis
      by (simp add: solveBody_def answer_def emptySolution_def Let_def i_def [symmetric])
  qed
qed

lemma cubesEqual_eq: "cubesEqual c1 c2 \<longleftrightarrow> c1 = (c2 :: Cube)"
  by (auto simp: cubesEqual_def)

text \<open>\<open>solve\<close> always returns: what it returns and the state it leaves.\<close>

lemma solve_Inr:
  "\<exists>rt'. solve clk rt s c
            = Inr (solveBody (config s) (globals rt') clk c, s\<lparr>initialized := True\<rparr>, rt') \<and>
         (initialized s \<longrightarrow> rt' = rt) \<and>
         (\<not> initialized s \<longrightarrow> initializePruningTables rt = Inr rt')"
proof (cases "initialized s")
  case True
  then have "solve clk rt s c = Inr (solveBody (config s) (globals rt) clk c, s\<lparr>initialized := True\<rparr>, rt)"
    by (cases s) (simp add: solve_def)
  with True show ?thesis
    by blast
next
  case False
  obtain rt' where i: "initializePruningTables rt = Inr rt'"
    using initializePruningTables_Inr by blast
  with False have "solve clk rt s c
      = Inr (solveBody (config s) (globals rt') clk c, s\<lparr>initialized := True\<rparr>, rt')"
    by (simp add: solve_def initialize_def)
  with False i show ?thesis
    by blast
qed

subsection \<open>What a successful result says about the input\<close>

lemma validPermLoop_iff:
  "length seen = n \<Longrightarrow>
   validPermLoop n seen vals \<longleftrightarrow> distinct vals \<and> (\<forall>v \<in> set vals. v < n \<and> \<not> seen ! v)"
proof (induction vals arbitrary: seen)
  case Nil
  show ?case by simp
next
  case (Cons val vals)
  show ?case
  proof (cases "val \<ge> n \<or> seen ! val")
    case True
    then show ?thesis by auto
  next
    case False
    then have v: "val < n" "\<not> seen ! val" by auto
    have len: "length (seen[val := True]) = n"
      using Cons.prems by simp
    have "validPermLoop n seen (val # vals) = validPermLoop n (seen[val := True]) vals"
      using False by simp
    also have "\<dots> \<longleftrightarrow> distinct vals \<and> (\<forall>v \<in> set vals. v < n \<and> \<not> seen[val := True] ! v)"
      by (rule Cons.IH [OF len])
    also have "\<dots> \<longleftrightarrow> distinct (val # vals) \<and> (\<forall>v \<in> set (val # vals). v < n \<and> \<not> seen ! v)"
      using v Cons.prems by (auto simp: nth_list_update)
    finally show ?thesis .
  qed
qed

lemma isValidPermutation_iff:
  "isValidPermutation perm n \<longleftrightarrow> length perm = n \<and> distinct perm \<and> (\<forall>v \<in> set perm. v < n)"
  by (auto simp: isValidPermutation_def validPermLoop_iff)

lemma isValidPermutation_mset:
  "isValidPermutation perm n \<longleftrightarrow> mset perm = mset [0..<n]"
proof
  assume "isValidPermutation perm n"
  then have l: "length perm = n" and d: "distinct perm" and r: "set perm \<subseteq> {0..<n}"
    by (auto simp: isValidPermutation_iff)
  have "card (set perm) = n"
    using l d by (simp add: distinct_card)
  with r have "set perm = {0..<n}"
    by (intro card_subset_eq) simp_all
  then have "mset_set (set perm) = mset_set {0..<n}"
    by simp
  with d show "mset perm = mset [0..<n]"
    by (simp add: mset_set_set)
next
  assume m: "mset perm = mset [0..<n]"
  then have "length perm = length [0..<n]"
    by (rule mset_eq_length)
  moreover from m have "distinct perm"
    by (metis distinct_upt mset_eq_imp_distinct_iff)
  moreover from m have "set perm = set [0..<n]"
    by (rule mset_eq_setD)
  ultimately show "isValidPermutation perm n"
    by (simp add: isValidPermutation_iff)
qed

lemma applyMoveSequence_invariants:
  assumes "length (cPerm c) = 8" "length (cOri c) = 8" "length (ePerm c) = 12" "length (eOri c) = 12"
  shows "length (cPerm (applyMoveSequence c ms)) = 8 \<and> length (cOri (applyMoveSequence c ms)) = 8 \<and>
         length (ePerm (applyMoveSequence c ms)) = 12 \<and> length (eOri (applyMoveSequence c ms)) = 12 \<and>
         mset (cPerm (applyMoveSequence c ms)) = mset (cPerm c) \<and>
         mset (ePerm (applyMoveSequence c ms)) = mset (ePerm c) \<and>
         sum_list (cOri (applyMoveSequence c ms)) mod 3 = sum_list (cOri c) mod 3 \<and>
         sum_list (eOri (applyMoveSequence c ms)) mod 2 = sum_list (eOri c) mod 2"
  using assms
proof (induction ms arbitrary: c)
  case Nil
  then show ?case by (simp add: applyMoveSequence_def)
next
  case (Cons k ms)
  let ?c = "applyMove c (getMoveByKey k)"
  have sh: "moveShape (getMoveByKey k)"
    by (simp add: getMoveByKey_def moveShape_ALL_MOVES)
  have len: "length (cPerm ?c) = 8" "length (cOri ?c) = 8" "length (ePerm ?c) = 12"
    "length (eOri ?c) = 12"
    by (simp_all add: applyMove_def)
  have step: "applyMoveSequence c (k # ms) = applyMoveSequence ?c ms"
    by (simp add: applyMoveSequence_def)
  from Cons.IH [OF len] cPerm_applyMove_mset [OF sh Cons.prems(1)]
    ePerm_applyMove_mset [OF sh Cons.prems(3)] cOri_sum_applyMove [OF sh Cons.prems(2)]
    eOri_sum_applyMove [OF sh Cons.prems(4)]
  show ?case
    unfolding step by simp
qed

lemma solveBody_success:
  assumes "success (solveBody cfg g clk c)"
  shows "isSolved c \<or> isSolved (applyMoveSequence c (moves (solveBody cfg g clk c)))"
  using assms
  by (auto simp: solveBody_def Let_def emptySolution_def verifySolution_def applyMoveSequence_def
      split: if_splits sum.splits)

lemma isSolved_facts:
  assumes "isSolved c"
  shows "isValidPermutation (cPerm c) 8" "isValidPermutation (ePerm c) 12"
    "sum_list (cOri c) mod 3 = 0" "sum_list (eOri c) mod 2 = 0"
  using assms
  by (simp_all add: isSolved_def cubesEqual_def solvedCube_def isValidPermutation_mset
      upt_8 upt_12 del: mset_upt)

lemma solveBody_success_invariants:
  assumes "success (solveBody cfg g clk c)"
    and "length (cPerm c) = 8" "length (cOri c) = 8" "length (ePerm c) = 12" "length (eOri c) = 12"
  shows "isValidPermutation (cPerm c) 8 \<and> isValidPermutation (ePerm c) 12 \<and>
         sum_list (cOri c) mod 3 = 0 \<and> sum_list (eOri c) mod 2 = 0"
proof -
  from solveBody_success [OF assms(1)] show ?thesis
  proof
    assume "isSolved c"
    then show ?thesis
      by (simp add: isSolved_facts)
  next
    let ?d = "applyMoveSequence c (moves (solveBody cfg g clk c))"
    assume "isSolved ?d"
    note s = isSolved_facts [OF this]
    note i = applyMoveSequence_invariants [OF assms(2-5), of "moves (solveBody cfg g clk c)"]
    from s i show ?thesis
      by (simp add: isValidPermutation_mset del: mset_upt)
  qed
qed


lemma solvePhase1_error:
  "solvePhase1 cfg g clk c = Inr r \<Longrightarrow> success r \<or> error r \<noteq> None"
  by (auto simp: solvePhase1_def Let_def emptySolution_def split: if_splits sum.splits option.splits)

lemma solvePhase2_error:
  "solvePhase2 cfg g clk c = Inr r \<Longrightarrow> success r \<or> error r \<noteq> None"
  by (auto simp: solvePhase2_def Let_def emptySolution_def split: if_splits sum.splits option.splits)

lemma solveBody_error:
  "success (solveBody cfg g clk c) \<or> error (solveBody cfg g clk c) \<noteq> None"
  using solvePhase1_error [of cfg g clk c] solvePhase2_error [of cfg g clk]
  by (auto simp: solveBody_def Let_def emptySolution_def split: if_splits sum.splits)

subsection \<open>The search does not throw once the move tables are built\<close>

lemma foldl_Inr:
  assumes "\<And>m st. m \<in> set ms \<Longrightarrow> \<exists>st'. f (Inr st) m = Inr st'"
  shows "\<exists>r. foldl f (Inr st0) ms = Inr r"
  using assms
proof (induction ms arbitrary: st0)
  case Nil
  show ?case by simp
next
  case (Cons m ms)
  obtain st' where s: "f (Inr st0) m = Inr st'"
    using Cons.prems [of m st0] by auto
  have "\<exists>r. foldl f (Inr st') ms = Inr r"
    by (rule Cons.IH) (simp add: Cons.prems)
  then show ?case
    by (simp add: s)
qed

lemma searchPhase1Depth_Inr:
  assumes "tablesReady g"
  shows "\<exists>r. searchPhase1Depth g coord limit currentDepth lastMove = Inr r"
  using assms
proof (induction g coord limit currentDepth lastMove rule: searchPhase1Depth.induct)
  case (1 g coord limit currentDepth lastMove)
  show ?case
  proof (cases "(eo coord = Some 0 \<and> eslice coord = Some 0) \<or>
                exceeds currentDepth (phase1Heuristic g (eo coord) (co coord) (eslice coord)) limit \<or>
                limit \<le> currentDepth")
    case True
    then show ?thesis
      by (subst searchPhase1Depth.simps) auto
  next
    case False
    then have c: "\<not> (eo coord = Some 0 \<and> eslice coord = Some 0)"
      "\<not> exceeds currentDepth (phase1Heuristic g (eo coord) (co coord) (eslice coord)) limit"
      "\<not> limit \<le> currentDepth"
      by blast+
    have step: "\<exists>st'.
        (case Inr st of
           Inl e \<Rightarrow> Inl e
         | Inr st \<Rightarrow>
             (case fst st of
                Some found \<Rightarrow> Inr st
              | None \<Rightarrow>
                  if shouldSkipMove m lastMove PHASE1_MOVES then Inr st
                  else
                    (case applyMoveToEO g (eo coord) m of
                       Inl e \<Rightarrow> Inl e
                     | Inr nextEo \<Rightarrow>
                    (case applyMoveToCO g (co coord) m of
                       Inl e \<Rightarrow> Inl e
                     | Inr nextCo \<Rightarrow>
                    (case applyMoveToESlice g (eslice coord) m of
                       Inl e \<Rightarrow> Inl e
                     | Inr nextESlice \<Rightarrow>
                    (case searchPhase1Depth g
                            \<lparr>eo = nextEo, co = nextCo, eslice = nextESlice\<rparr>
                            limit (currentDepth + 1) (int m) of
                       Inl e \<Rightarrow> Inl e
                     | Inr result \<Rightarrow>
                         (case fst result of
                            Some rest \<Rightarrow> Inr (Some (m # rest), snd st + snd result)
                          | None \<Rightarrow> Inr (None, snd st + snd result)))))))) = Inr st'"
      if m: "m \<in> set PHASE1_MOVES" for m and st :: "nat list option \<times> nat"
    proof (cases "fst st = None \<and> \<not> shouldSkipMove m lastMove PHASE1_MOVES")
      case False
      then show ?thesis
        by (auto split: option.splits)
    next
      case True
      from m have "m < 18"
        by (simp add: PHASE1_MOVES_def)
      with "1.prems" obtain ba bb bc where
        t: "applyMoveToEO g (eo coord) m = Inr ba" "applyMoveToCO g (co coord) m = Inr bb"
        "applyMoveToESlice g (eslice coord) m = Inr bc"
        using applyMoveTo_Inr(1-3) [of g m] by metis
      from True have n: "fst st = None" and k: "\<not> shouldSkipMove m lastMove PHASE1_MOVES"
        by simp_all
      obtain r where "searchPhase1Depth g \<lparr>eo = ba, co = bb, eslice = bc\<rparr> limit
                        (currentDepth + 1) (int m) = Inr r"
        using "1.IH" [OF c m refl n k t "1.prems"] by blast
      with n k t show ?thesis
        by (auto split: option.splits)
    qed
    show ?thesis
      apply (subst searchPhase1Depth.simps)
      apply (simp only: c if_False)
      apply (rule foldl_Inr)
      apply (rule step)
      apply assumption
      done
  qed
qed

lemma deepenPhase1_Inr:
  assumes "tablesReady g"
  shows "\<exists>r. deepenPhase1 g elapsed coord maxDepth limit n = Inr r"
  using assms
proof (induction g elapsed coord maxDepth limit n rule: deepenPhase1.induct)
  case (1 g elapsed startCoord maxDepth limit n)
  obtain r where r: "searchPhase1Depth g startCoord limit 0 (- 1) = Inr r"
    using searchPhase1Depth_Inr [OF "1.prems"] by blast
  show ?case
  proof (cases "limit \<le> maxDepth \<and> fst r = None")
    case True
    with "1.IH" [OF _ r _ "1.prems"] r show ?thesis
      by (subst deepenPhase1.simps) simp
  next
    case False
    with r show ?thesis
      by (subst deepenPhase1.simps) (auto split: option.splits)
  qed
qed

lemma searchPhase1_Inr:
  assumes "tablesReady g"
  shows "\<exists>r. searchPhase1 g elapsed coord maxDepth = Inr r"
  using deepenPhase1_Inr [OF assms]
  by (simp add: searchPhase1_def split: option.splits)

subsection \<open>The cube with one flipped edge\<close>

lemma isInG1_eOri_sum:
  assumes "isInG1 c" and "length (eOri c) = 12"
  shows "sum_list (eOri c) = 0"
proof -
  have "x = 0" if "x \<in> set (eOri c)" for x
    using that isInG1_D(2) [OF assms(1)] assms(2) by (auto simp: in_set_conv_nth)
  then show ?thesis
    by (simp add: sum_list_eq_0_iff)
qed

lemma flippedEdgeCube_facts:
  "cubeShape flippedEdgeCube" "\<not> isSolved flippedEdgeCube" "\<not> isInG1 flippedEdgeCube"
  "sum_list (eOri flippedEdgeCube) mod 2 = 1" "\<not> isValidCube flippedEdgeCube"
  using isValidPermutation_identity parityOfPermutation_identity
  by (simp_all add: flippedEdgeCube_def solvedCube_def cubeShape_def isSolved_def cubesEqual_def
      isInG1_def js_nth_def upt_12 isValidCube_def)

lemma solveBody_flippedEdgeCube:
  assumes "tablesReady g"
  shows "\<not> success (solveBody cfg g clk flippedEdgeCube) \<and>
         (error (solveBody cfg g clk flippedEdgeCube) = Some (Phase1SearchFailed (maxPhase1Depth cfg)) \<or>
          error (solveBody cfg g clk flippedEdgeCube) = Some FailedToReachG1)"
proof -
  obtain r where r: "searchPhase1 g (phase1Elapsed clk) (getPhase1Coord flippedEdgeCube)
                       (maxPhase1Depth cfg) = Inr r"
    using searchPhase1_Inr [OF assms] by blast
  show ?thesis
  proof (cases r)
    case None
    with r show ?thesis
      by (simp add: solveBody_def solvePhase1_def flippedEdgeCube_facts emptySolution_def)
  next
    case (Some sr)
    let ?i = "applyMoveSequence flippedEdgeCube (moveIndicesToKeys (solution sr))"
    have "length (eOri ?i) = 12 \<and> sum_list (eOri ?i) mod 2 = 1"
      using applyMoveSequence_invariants [of flippedEdgeCube "moveIndicesToKeys (solution sr)"]
        flippedEdgeCube_facts(1,4)
      by (simp add: cubeShape_def)
    then have l: "length (eOri ?i) = 12" and o: "sum_list (eOri ?i) mod 2 = 1"
      by simp_all
    have "\<not> isInG1 ?i"
    proof
      assume "isInG1 ?i"
      from isInG1_eOri_sum [OF this l] o show False
        by (simp del: sum_list_eq_0_iff)
    qed
    with r Some show ?thesis
      by (simp add: solveBody_def solvePhase1_def flippedEdgeCube_facts emptySolution_def Let_def
          applyMoveSequence_def)
  qed
qed

subsection \<open>Lehmer codes: decoding then encoding\<close>

lemma filter_less_strict_sorted:
  assumes s: "sorted_wrt (<) (rest :: 'a :: linorder list)" and r: "rank < length rest"
  shows "length (filter (\<lambda>y. y < rest ! rank) (take rank rest @ drop (Suc rank) rest)) = rank"
proof -
  have a: "filter (\<lambda>y. y < rest ! rank) (take rank rest) = take rank rest"
  proof (rule filter_True, clarify)
    fix y assume "y \<in> set (take rank rest)"
    then obtain i where "i < rank" "y = rest ! i"
      using r by (auto simp: in_set_conv_nth)
    with s r show "y < rest ! rank"
      by (simp add: sorted_wrt_nth_less)
  qed
  have b: "filter (\<lambda>y. y < rest ! rank) (drop (Suc rank) rest) = []"
  proof (rule filter_False, clarify)
    fix y assume "y \<in> set (drop (Suc rank) rest)" and l: "y < rest ! rank"
    then obtain j where j: "j < length (drop (Suc rank) rest)" "y = drop (Suc rank) rest ! j"
      by (auto simp: in_set_conv_nth)
    then have i: "Suc rank + j < length rest" "y = rest ! (Suc rank + j)"
      by simp_all
    have "rest ! rank < rest ! (Suc rank + j)"
      using s _ i(1) by (rule sorted_wrt_nth_less) simp
    with i(2) have "rest ! rank < y"
      by simp
    with l show False
      by simp
  qed
  from r show ?thesis
    by (simp add: a b)
qed

lemma strict_sorted_remove:
  assumes "sorted_wrt (<) (rest :: 'a :: linorder list)"
  shows "sorted_wrt (<) (take rank rest @ drop (Suc rank) rest)"
proof -
  have "sorted_wrt (<) (take rank rest @ drop rank rest)"
    using assms by simp
  then have "sorted_wrt (<) (take rank rest)" "sorted_wrt (<) (drop rank rest)"
    and c: "\<forall>x\<in>set (take rank rest). \<forall>y\<in>set (drop rank rest). x < y"
    unfolding sorted_wrt_append by blast+
  moreover have "sorted_wrt (<) (drop (Suc rank) rest)"
    using assms by (rule sorted_wrt_drop)
  moreover have "set (drop (Suc rank) rest) \<subseteq> set (drop rank rest)"
    by (rule set_drop_subset_set_drop) simp
  ultimately show ?thesis
    unfolding sorted_wrt_append by blast
qed

lemma mset_remove_nth:
  assumes "rank < length rest"
  shows "add_mset (rest ! rank) (mset (take rank rest @ drop (Suc rank) rest)) = mset rest"
proof -
  have "rest = take rank rest @ rest ! rank # drop (Suc rank) rest"
    using assms by (rule id_take_nth_drop)
  then have "mset rest = mset (take rank rest @ rest ! rank # drop (Suc rank) rest)"
    by simp
  then show ?thesis
    by simp
qed

lemma length_filter_mset:
  "mset xs = mset ys \<Longrightarrow> length (filter P xs) = length (filter P ys)"
  by (metis mset_filter size_mset)

lemma indexToPermLoop_roundtrip:
  assumes "sorted_wrt (<) rest" "length rest = m" "index < fact m"
  shows "permutationToIndex (indexToPermLoop m index rest) = index \<and>
         mset (indexToPermLoop m index rest) = mset rest"
  using assms
proof (induction m arbitrary: index rest)
  case 0
  then show ?case by simp
next
  case (Suc m)
  define rank where "rank = index div fact m"
  define rest' where "rest' = take rank rest @ drop (Suc rank) rest"
  define p where "p = indexToPermLoop m (index mod fact m) rest'"
  have "index < Suc m * fact m"
    using Suc.prems(3) by simp
  then have rank: "rank < Suc m"
    unfolding rank_def by (simp add: less_mult_imp_div_less)
  then have rl: "rank < length rest"
    using Suc.prems(2) by simp
  have l': "length rest' = m"
    using rl Suc.prems(2) by (simp add: rest'_def)
  have s': "sorted_wrt (<) rest'"
    unfolding rest'_def using Suc.prems(1) by (rule strict_sorted_remove)
  have "index mod fact m < fact m"
    by simp
  from Suc.IH [OF s' l' this]
  have ih: "permutationToIndex p = index mod fact m" "mset p = mset rest'"
    by (simp_all add: p_def)
  from ih(2) have lp: "length p = m"
    using l' by (metis size_mset)
  have loop: "indexToPermLoop (Suc m) index rest = rest ! rank # p"
    by (simp add: Let_def rank_def rest'_def p_def del: fact_Suc)
  have "length (filter (\<lambda>y. y < rest ! rank) p) = length (filter (\<lambda>y. y < rest ! rank) rest')"
    using ih(2) by (rule length_filter_mset)
  also have "\<dots> = rank"
    unfolding rest'_def using Suc.prems(1) rl by (rule filter_less_strict_sorted)
  finally have f: "length (filter (\<lambda>y. y < rest ! rank) p) = rank" .
  have "permutationToIndex (rest ! rank # p) = rank * fact m + index mod fact m"
    by (simp add: f lp ih(1) del: fact_Suc)
  also have "\<dots> = index"
    unfolding rank_def by simp
  finally have "permutationToIndex (indexToPermLoop (Suc m) index rest) = index"
    by (simp only: loop)
  moreover have "mset (indexToPermLoop (Suc m) index rest) = mset rest"
    unfolding loop using mset_remove_nth [OF rl] ih(2) by (simp add: rest'_def)
  ultimately show ?case
    by blast
qed

lemma indexToPermutation_roundtrip:
  assumes "index < fact n"
  shows "permutationToIndex (indexToPermutation index n) = index"
    and "mset (indexToPermutation index n) = mset [0..<n]"
    and "length (indexToPermutation index n) = n"
proof -
  have s: "sorted_wrt (<) [0..<n]"
    by (rule sorted_wrt_upt)
  from indexToPermLoop_roundtrip [OF s _ assms]
  show "permutationToIndex (indexToPermutation index n) = index"
    and m: "mset (indexToPermutation index n) = mset [0..<n]"
    by (simp_all add: indexToPermutation_def del: mset_upt)
  from m have "size (mset (indexToPermutation index n)) = size (mset [0..<n])"
    by (simp only:)
  then show "length (indexToPermutation index n) = n"
    by simp
qed

lemma permutationToIndex_map:
  assumes "strict_mono f"
  shows "permutationToIndex (map f xs) = permutationToIndex xs"
proof (induction xs)
  case Nil
  show ?case by simp
next
  case (Cons x xs)
  have "filter (\<lambda>y. y < f x) (map f xs) = map f (filter (\<lambda>y. y < x) xs)"
    using assms by (simp add: filter_map comp_def strict_mono_less)
  then show ?case
    using Cons by (simp del: fact_Suc)
qed

lemma foldl_update_block:
  assumes "off + n \<le> length xs"
  shows "foldl (\<lambda>arr i. arr[off + i := g i]) xs [0..<n]
           = take off xs @ map g [0..<n] @ drop (off + n) xs"
  using assms
proof (induction n)
  case 0
  show ?case by simp
next
  case (Suc n)
  have l: "length (take off xs @ map g [0..<n]) = off + n"
    using Suc.prems by simp
  have d: "drop (off + n) xs = xs ! (off + n) # drop (Suc (off + n)) xs"
    using Suc.prems by (simp add: Cons_nth_drop_Suc)
  have "foldl (\<lambda>arr i. arr[off + i := g i]) xs [0..<Suc n]
          = (take off xs @ map g [0..<n] @ drop (off + n) xs)[off + n := g n]"
    using Suc by simp
  also have "\<dots> = (take off xs @ map g [0..<n]) @ (drop (off + n) xs)[0 := g n]"
    using list_update_append [of "take off xs @ map g [0..<n]" "drop (off + n) xs" "off + n" "g n"] l
    by simp
  also have "\<dots> = take off xs @ map g [0..<Suc n] @ drop (off + Suc n) xs"
    by (simp add: d)
  finally show ?case .
qed

lemma fact_8: "fact 8 = (40320::nat)"
  by (simp add: fact_numeral)

lemma fact_4: "fact 4 = (24::nat)"
  by (simp add: fact_numeral)

lemma getCornerPermutation_roundtrip:
  assumes "k < CP_SIZE"
  shows "getCornerPermutation (setCornerPermutation solvedCube k) = k"
  using assms indexToPermutation_roundtrip(1) [of k 8]
  by (simp add: getCornerPermutation_def setCornerPermutation_def CP_SIZE_def fact_8)

lemma getUDEdgePermutation_roundtrip:
  assumes "k < UDEP_SIZE"
  shows "getUDEdgePermutation (setUDEdgePermutation solvedCube k) = k"
proof -
  have k: "k < fact 8"
    using assms by (simp add: UDEP_SIZE_def fact_8)
  note p = indexToPermutation_roundtrip [OF k]
  have "foldl (\<lambda>arr i. arr[i := indexToPermutation k 8 ! i]) (ePerm solvedCube) [0..<8]
          = take 0 (ePerm solvedCube) @ map (\<lambda>i. indexToPermutation k 8 ! i) [0..<8]
            @ drop (0 + 8) (ePerm solvedCube)"
    using foldl_update_block [of 0 8 "ePerm solvedCube" "\<lambda>i. indexToPermutation k 8 ! i"]
    by (simp add: solvedCube_def)
  also have "map (\<lambda>i. indexToPermutation k 8 ! i) [0..<8] = indexToPermutation k 8"
    using p(3) by (metis map_nth)
  finally have "take 8 (foldl (\<lambda>arr i. arr[i := indexToPermutation k 8 ! i]) (ePerm solvedCube) [0..<8])
                  = indexToPermutation k 8"
    using p(3) by simp
  then show ?thesis
    by (simp add: getUDEdgePermutation_def setUDEdgePermutation_def Let_def p(1))
qed

lemma getESlicePermutation_roundtrip:
  assumes "k < EP_SIZE"
  shows "getESlicePermutation (setESlicePermutation solvedCube k) = k"
proof -
  have k: "k < fact 4"
    using assms by (simp add: EP_SIZE_def fact_4)
  note p = indexToPermutation_roundtrip [OF k]
  define perm where "perm = indexToPermutation k 4"
  define arr where "arr = foldl (\<lambda>arr i. arr[8 + i := E_EDGES ! (perm ! i)]) (ePerm solvedCube) [0..<4]"
  have lt: "perm ! i < 4" if "i < 4" for i
  proof -
    have "perm ! i \<in> set perm"
      using that p(3) by (simp add: perm_def)
    also have "set perm = set [0..<4]"
      using p(2) unfolding perm_def by (rule mset_eq_setD)
    finally show ?thesis
      by simp
  qed
  have arr: "arr = take 8 (ePerm solvedCube) @ map (\<lambda>i. E_EDGES ! (perm ! i)) [0..<4]
                   @ drop (8 + 4) (ePerm solvedCube)"
    unfolding arr_def by (rule foldl_update_block) (simp add: solvedCube_def)
  have nth: "arr ! (8 + i) = 8 + perm ! i" if "i < 4" for i
  proof -
    have "arr ! (8 + i) = map (\<lambda>i. E_EDGES ! (perm ! i)) [0..<4] ! i"
      using that unfolding arr by (simp add: nth_append solvedCube_def)
    also have "\<dots> = E_EDGES ! (perm ! i)"
      using that by simp
    also have "\<dots> = 8 + perm ! i"
      using lt [OF that] by (auto simp: E_EDGES_def less_Suc_eq numeral_eq_Suc)
    finally show ?thesis .
  qed
  have "map (\<lambda>i. int (arr ! (8 + i)) - 8) [0..<4] = map (\<lambda>i. int (perm ! i)) [0..<4]"
    by (rule map_cong) (simp_all add: nth)
  also have "\<dots> = map int (map (\<lambda>i. perm ! i) [0..<4])"
    by simp
  also have "map (\<lambda>i. perm ! i) [0..<4] = perm"
    using p(3) unfolding perm_def by (metis map_nth)
  finally have "permutationToIndex (map (\<lambda>i. int (arr ! (8 + i)) - 8) [0..<4])
                  = permutationToIndex (map int perm)"
    by simp
  also have "\<dots> = permutationToIndex perm"
    by (rule permutationToIndex_map) (simp add: strict_mono_def)
  also have "\<dots> = k"
    unfolding perm_def by (rule p(1))
  finally show ?thesis
    by (simp add: getESlicePermutation_def setESlicePermutation_def Let_def perm_def arr_def)
qed

subsection \<open>Orientation coordinates: decoding then encoding\<close>

lemma digit_loop:
  assumes st: "\<And>arr acc c i. \<exists>acc'. step (arr, acc, c) i = (arr[i := c mod b], acc', c div b)"
    and "n \<le> length arr"
  shows "\<exists>acc'. foldl step (arr, acc, c :: nat) (rev [0..<n])
           = (map (\<lambda>i. (c div b ^ (n - 1 - i)) mod b) [0..<n] @ drop n arr, acc', c div b ^ n)"
  using assms(2)
proof (induction n arbitrary: arr acc c)
  case 0
  show ?case by simp
next
  case (Suc n)
  obtain acc1 where s1: "step (arr, acc, c) n = (arr[n := c mod b], acc1, c div b)"
    using st by blast
  have "n \<le> length (arr[n := c mod b])"
    using Suc.prems by simp
  from Suc.IH [OF this, of acc1 "c div b"] obtain acc' where
    ih: "foldl step (arr[n := c mod b], acc1, c div b) (rev [0..<n])
           = (map (\<lambda>i. (c div b div b ^ (n - 1 - i)) mod b) [0..<n] @ drop n (arr[n := c mod b]),
              acc', c div b div b ^ n)"
    by blast
  have d: "drop n (arr[n := c mod b]) = c mod b # drop (Suc n) arr"
    using Suc.prems by (simp add: drop_update_swap Cons_nth_drop_Suc [symmetric]
        upd_conv_take_nth_drop)
  have m: "map (\<lambda>i. (c div b div b ^ (n - 1 - i)) mod b) [0..<n]
             = map (\<lambda>i. (c div b ^ (Suc n - 1 - i)) mod b) [0..<n]"
  proof (rule map_cong [OF refl])
    fix i assume "i \<in> set [0..<n]"
    then have "n - i = Suc (n - 1 - i)"
      by simp
    then have "b ^ (n - i) = b * b ^ (n - 1 - i)"
      by simp
    then show "(c div b div b ^ (n - 1 - i)) mod b = (c div b ^ (Suc n - 1 - i)) mod b"
      by (simp add: div_mult2_eq)
  qed
  have "foldl step (arr, acc, c) (rev [0..<Suc n])
          = foldl step (step (arr, acc, c) n) (rev [0..<n])"
    by simp
  also have "\<dots> = (map (\<lambda>i. (c div b ^ (Suc n - 1 - i)) mod b) [0..<n] @ c mod b # drop (Suc n) arr,
                    acc', c div b div b ^ n)"
    by (simp only: s1 ih d m)
  also have "\<dots> = (map (\<lambda>i. (c div b ^ (Suc n - 1 - i)) mod b) [0..<Suc n] @ drop (Suc n) arr,
                    acc', c div b ^ Suc n)"
    by (simp add: div_mult2_eq)
  finally show ?case
    by blast
qed

lemma horner:
  assumes "\<And>i. i < n \<Longrightarrow> d i = (c div b ^ (n - 1 - i)) mod b"
  shows "foldl (\<lambda>coord i. coord * b + d i) a [0..<n] = a * b ^ n + (c :: nat) mod b ^ n"
  using assms
proof (induction n arbitrary: c)
  case 0
  show ?case by simp
next
  case (Suc n)
  have "d i = (c div b div b ^ (n - 1 - i)) mod b" if "i < n" for i
  proof -
    from that have "n - i = Suc (n - 1 - i)"
      by simp
    then have "b ^ (n - i) = b * b ^ (n - 1 - i)"
      by simp
    with Suc.prems [of i] that show ?thesis
      by (simp add: div_mult2_eq)
  qed
  from Suc.IH [of "c div b", OF this]
  have ih: "foldl (\<lambda>coord i. coord * b + d i) a [0..<n] = a * b ^ n + c div b mod b ^ n"
    by simp
  have dn: "d n = c mod b"
    using Suc.prems [of n] by simp
  have "foldl (\<lambda>coord i. coord * b + d i) a [0..<Suc n]
          = foldl (\<lambda>coord i. coord * b + d i) a [0..<n] * b + d n"
    by simp
  also have "\<dots> = (a * b ^ n + c div b mod b ^ n) * b + c mod b"
    by (simp only: ih dn)
  also have "\<dots> = a * b ^ Suc n + c mod b ^ Suc n"
    by (simp add: mod_mult2_eq algebra_simps)
  finally show ?case .
qed

lemma setEOStep_digit:
  "\<exists>acc'. setEOStep (arr, acc, c) i = (arr[i := c mod 2], acc', c div 2)"
  by (simp add: setEOStep_def Let_def and_one_eq drop_bit_Suc)

lemma setCOStep_digit:
  "\<exists>acc'. setCOStep (arr, acc, c) i = (arr[i := c mod 3], acc', c div 3)"
  by (simp add: setCOStep_def Let_def)

lemma push_bit_or_bit:
  assumes "y < 2"
  shows "push_bit 1 x OR y = x * 2 + (y::nat)"
proof -
  have "push_bit 1 x OR 1 = x * 2 + (1::nat)"
    unfolding or_one_eq push_bit_eq_mult by simp
  moreover have "push_bit 1 x OR 0 = x * 2 + (0::nat)"
    by (simp add: push_bit_eq_mult)
  moreover from assms have "y = 0 \<or> y = 1"
    by auto
  ultimately show ?thesis
    by metis
qed

lemma getEdgeOrientation_roundtrip:
  assumes "k < EO_SIZE"
  shows "getEdgeOrientation (setEdgeOrientation solvedCube k) = k"
proof -
  define bits where "bits = (\<lambda>i. (k div 2 ^ (11 - 1 - i)) mod 2)"
  obtain acc' where
    l: "foldl setEOStep (eOri solvedCube, 0, k) (rev [0..<11])
          = (map bits [0..<11] @ drop 11 (eOri solvedCube), acc', k div 2 ^ 11)"
    using digit_loop [of setEOStep 2 11 "eOri solvedCube" 0 k, OF setEOStep_digit]
    by (auto simp: solvedCube_def bits_def)
  define e where "e = (map bits [0..<11] @ drop 11 (eOri solvedCube))[11 := acc']"
  have e: "e ! i = bits i" if "i < 11" for i
    using that unfolding e_def by (simp add: nth_append)
  have "getEdgeOrientation (setEdgeOrientation solvedCube k)
          = foldl (\<lambda>coord i. push_bit 1 coord OR e ! i) 0 [0..<11]"
    by (simp add: getEdgeOrientation_def setEdgeOrientation_def l e_def)
  also have "\<dots> = foldl (\<lambda>coord i. coord * 2 + bits i) 0 [0..<11]"
  proof (rule foldl_cong [OF refl refl])
    fix coord i assume "i \<in> set [0..<11]"
    then have "e ! i = bits i"
      by (intro e) simp
    moreover have "bits i < 2"
      by (simp add: bits_def)
    then have "push_bit 1 coord OR bits i = coord * 2 + bits i"
      by (rule push_bit_or_bit)
    ultimately show "push_bit 1 coord OR e ! i = coord * 2 + bits i"
      by (simp only:)
  qed
  also have "\<dots> = 0 * 2 ^ 11 + k mod 2 ^ 11"
    by (rule horner) (simp add: bits_def)
  also have "\<dots> = k"
    using assms by (simp add: EO_SIZE_def)
  finally show ?thesis .
qed

lemma getCornerOrientation_roundtrip:
  assumes "k < CO_SIZE"
  shows "getCornerOrientation (setCornerOrientation solvedCube k) = k"
proof -
  define digs where "digs = (\<lambda>i. (k div 3 ^ (7 - 1 - i)) mod 3)"
  obtain acc' where
    l: "foldl setCOStep (cOri solvedCube, 0, k) (rev [0..<7])
          = (map digs [0..<7] @ drop 7 (cOri solvedCube), acc', k div 3 ^ 7)"
    using digit_loop [of setCOStep 3 7 "cOri solvedCube" 0 k, OF setCOStep_digit]
    by (auto simp: solvedCube_def digs_def)
  define e where "e = (map digs [0..<7] @ drop 7 (cOri solvedCube))[7 := (3 - acc') mod 3]"
  have e: "e ! i = digs i" if "i < 7" for i
    using that unfolding e_def by (simp add: nth_append)
  have "getCornerOrientation (setCornerOrientation solvedCube k)
          = foldl (\<lambda>coord i. coord * 3 + e ! i) 0 [0..<7]"
    by (simp add: getCornerOrientation_def setCornerOrientation_def l e_def)
  also have "\<dots> = foldl (\<lambda>coord i. coord * 3 + digs i) 0 [0..<7]"
    by (rule foldl_cong [OF refl refl]) (simp add: e)
  also have "\<dots> = 0 * 3 ^ 7 + k mod 3 ^ 7"
    by (rule horner) (simp add: digs_def)
  also have "\<dots> = k"
    using assms by (simp add: CO_SIZE_def)
  finally show ?thesis .
qed

subsection \<open>The E-slice coordinate: decoding then encoding\<close>

lemma binomial_product:
  assumes "k \<le> n"
  shows "foldl (\<lambda>result i. (result * of_int (int n - int i)) / of_int (int i + 1)) (1::rat) [0..<k]
           = of_nat (n choose k)"
  using assms
proof (induction k)
  case 0
  show ?case by simp
next
  case (Suc k)
  have "Suc k * (n choose Suc k) = (n - k) * (n choose k)"
    by (simp only: binomial_absorption binomial_absorb_comp)
  then have "(of_nat (Suc k) :: rat) * of_nat (n choose Suc k) = of_nat (n - k) * of_nat (n choose k)"
    by (metis of_nat_mult)
  then have "(of_nat (n choose Suc k) :: rat) = of_nat (n choose k) * of_nat (n - k) / of_nat (Suc k)"
    by (simp add: field_simps)
  moreover have "(of_int (int n - int k) :: rat) = of_nat (n - k)"
    using Suc.prems by (simp add: of_nat_diff)
  moreover have "(of_int (int k + 1) :: rat) = of_nat (Suc k)"
    by simp
  ultimately show ?case
    using Suc by simp
qed

lemma binomial_choose: "binomial (int n) (int k) = int (n choose k)"
proof (cases "k \<le> n")
  case False
  then show ?thesis
    by (simp add: binomial_def)
next
  case True
  have "\<lfloor>foldl (\<lambda>result i. (result * of_int (int n - int i)) / of_int (int i + 1)) (1::rat)
          [0..<k]\<rfloor> = int (n choose k)"
    by (simp only: binomial_product [OF True] floor_of_nat)
  with True show ?thesis
    by (auto simp: binomial_def)
qed

lemma setESlice_loop:
  assumes "n \<le> length arr" "r \<le> 4" "0 \<le> c" "c < int (n choose r)"
  shows "\<exists>arr'. foldl setESliceStep (arr, int r, c) (rev [0..<n]) = (arr', 0, 0) \<and>
           length arr' = length arr \<and>
           (\<forall>j. n \<le> j \<longrightarrow> arr' ! j = arr ! j) \<and>
           (\<forall>cube coord. ePerm cube = arr' \<longrightarrow>
              foldl (getESliceStep cube) (coord, int r) (rev [0..<n]) = (coord + c, 0))"
  using assms
proof (induction n arbitrary: arr r c)
  case 0
  then have "r = 0" "c = 0"
    by (cases r; simp)+
  then show ?case
    by simp
next
  case (Suc n)
  define placed where "placed \<longleftrightarrow> c \<ge> int (n choose r)"
  define v where "v = (if placed then nat (8 + (4 - int r)) else 0)"
  define r1 where "r1 = (if placed then r - 1 else r)"
  define c1 where "c1 = (if placed then c - int (n choose r) else c)"
  have pos: "0 < r" if placed
  proof (rule ccontr)
    assume "\<not> 0 < r"
    with Suc.prems(4) that show False
      by (simp add: placed_def)
  qed
  have step: "setESliceStep (arr, int r, c) n = (arr[n := v], int r1, c1)"
    using pos by (auto simp: setESliceStep_def binomial_choose placed_def v_def r1_def c1_def)
  have "8 \<le> nat (8 + (4 - int r))"
    using Suc.prems(2) by arith
  then have v: "v \<ge> 8 \<longleftrightarrow> placed"
    by (simp add: v_def)
  have c1: "0 \<le> c1" "c1 < int (n choose r1)"
  proof -
    show "0 \<le> c1"
      using Suc.prems(3) by (simp add: c1_def placed_def)
    show "c1 < int (n choose r1)"
    proof (cases placed)
      case False
      then show ?thesis
        by (simp add: c1_def r1_def placed_def)
    next
      case True
      then obtain r' where r': "r = Suc r'"
        using pos by (cases r) simp_all
      with Suc.prems(4) True show ?thesis
        by (simp add: c1_def r1_def)
    qed
  qed
  have "n \<le> length (arr[n := v])" "r1 \<le> 4"
    using Suc.prems(1,2) by (auto simp: r1_def)
  from Suc.IH [OF this c1] obtain arr' where
    ih: "foldl setESliceStep (arr[n := v], int r1, c1) (rev [0..<n]) = (arr', 0, 0)"
      "length arr' = length arr" "\<And>j. n \<le> j \<Longrightarrow> arr' ! j = arr[n := v] ! j"
      "\<And>cube coord. ePerm cube = arr' \<Longrightarrow>
         foldl (getESliceStep cube) (coord, int r1) (rev [0..<n]) = (coord + c1, 0)"
    by auto
  have an: "arr' ! n = v"
    using ih(3) [of n] Suc.prems(1) by simp
  have get: "foldl (getESliceStep cube) (coord, int r) (rev [0..<Suc n]) = (coord + c, 0)"
    if e: "ePerm cube = arr'" for cube coord
  proof -
    have "getESliceStep cube (coord, int r) n = (coord + (c - c1), int r1)"
      using v pos by (auto simp: getESliceStep_def e an binomial_choose c1_def r1_def)
    then have "foldl (getESliceStep cube) (coord, int r) (rev [0..<Suc n])
                 = foldl (getESliceStep cube) (coord + (c - c1), int r1) (rev [0..<n])"
      by simp
    also have "\<dots> = (coord + (c - c1) + c1, 0)"
      using e by (rule ih(4))
    finally show ?thesis
      by simp
  qed
  have "foldl setESliceStep (arr, int r, c) (rev [0..<Suc n]) = (arr', 0, 0)"
    by (simp add: step ih(1))
  moreover have "\<forall>j. Suc n \<le> j \<longrightarrow> arr' ! j = arr ! j"
    using ih(3) by simp
  ultimately show ?case
    using ih(2) get by blast
qed

lemma choose_12_4: "(12::nat) choose 4 = 495"
  by (simp add: numeral_eq_Suc binomial_Suc_Suc)

lemma length_foldl_update: "length (foldl (\<lambda>arr i. arr[i := z]) xs js) = length xs"
  by (induction js arbitrary: xs) simp_all

lemma getESlice_roundtrip:
  assumes "k < ESLICE_SIZE"
  shows "getESlice (setESlice solvedCube (int k)) = int k"
proof -
  define cleared where "cleared = foldl (\<lambda>arr i. arr[i := 0]) (ePerm solvedCube) [0..<12]"
  have l: "length cleared = 12"
    unfolding cleared_def by (simp add: length_foldl_update solvedCube_def)
  have "\<exists>arr'. foldl setESliceStep (cleared, int 4, 494 - int k) (rev [0..<12]) = (arr', 0, 0) \<and>
           length arr' = length cleared \<and>
           (\<forall>j. 12 \<le> j \<longrightarrow> arr' ! j = cleared ! j) \<and>
           (\<forall>cube coord. ePerm cube = arr' \<longrightarrow>
              foldl (getESliceStep cube) (coord, int 4) (rev [0..<12]) = (coord + (494 - int k), 0))"
    using assms by (intro setESlice_loop) (simp_all add: l choose_12_4 ESLICE_SIZE_def)
  then obtain arr' where
    s: "foldl setESliceStep (cleared, 4, 494 - int k) (rev [0..<12]) = (arr', 0, 0)"
    and g: "\<And>cube coord. ePerm cube = arr' \<Longrightarrow>
              foldl (getESliceStep cube) (coord, 4) (rev [0..<12]) = (coord + (494 - int k), 0)"
    by auto
  have "setESlice solvedCube (int k) = solvedCube\<lparr>ePerm := arr'\<rparr>"
    by (simp add: setESlice_def Let_def cleared_def [symmetric] s)
  then show ?thesis
    by (simp add: getESlice_def g)
qed

subsection \<open>The E-slice coordinate as a rank\<close>

lemma binomial_table:
  "binomial 0 1 = 0"
  "binomial 0 2 = 0"
  "binomial 0 3 = 0"
  "binomial 0 4 = 0"
  "binomial 1 1 = 1"
  "binomial 1 2 = 0"
  "binomial 1 3 = 0"
  "binomial 1 4 = 0"
  "binomial 2 1 = 2"
  "binomial 2 2 = 1"
  "binomial 2 3 = 0"
  "binomial 2 4 = 0"
  "binomial 3 1 = 3"
  "binomial 3 2 = 3"
  "binomial 3 3 = 1"
  "binomial 3 4 = 0"
  "binomial 4 1 = 4"
  "binomial 4 2 = 6"
  "binomial 4 3 = 4"
  "binomial 4 4 = 1"
  "binomial 5 1 = 5"
  "binomial 5 2 = 10"
  "binomial 5 3 = 10"
  "binomial 5 4 = 5"
  "binomial 6 1 = 6"
  "binomial 6 2 = 15"
  "binomial 6 3 = 20"
  "binomial 6 4 = 15"
  "binomial 7 1 = 7"
  "binomial 7 2 = 21"
  "binomial 7 3 = 35"
  "binomial 7 4 = 35"
  "binomial 8 1 = 8"
  "binomial 8 2 = 28"
  "binomial 8 3 = 56"
  "binomial 8 4 = 70"
  "binomial 9 1 = 9"
  "binomial 9 2 = 36"
  "binomial 9 3 = 84"
  "binomial 9 4 = 126"
  "binomial 10 1 = 10"
  "binomial 10 2 = 45"
  "binomial 10 3 = 120"
  "binomial 10 4 = 210"
  "binomial 11 1 = 11"
  "binomial 11 2 = 55"
  "binomial 11 3 = 165"
  "binomial 11 4 = 330"
  by (simp_all add: binomial_def upt_rec)


lemma enumeration_coordinates:
  "map (\<lambda>ps. 494 - fst (foldl (\<lambda>st i. (fst st + binomial (int i) (snd st), snd st - 1)) (0, 4) ps))
     reverseLexEnumeration = map int [0..<495]"
  by (simp add: reverseLexEnumeration_def binomial_table upt_rec)

lemma foldl_filter:
  "foldl (\<lambda>s i. if P i then f s i else s) s0 xs = foldl f s0 (filter P xs)"
  by (induction xs arbitrary: s0) simp_all

lemma getESlice_filter:
  "getESlice cube
     = 494 - fst (foldl (\<lambda>st i. (fst st + binomial (int i) (snd st), snd st - 1)) (0, 4)
                   (filter (\<lambda>i. ePerm cube ! i \<ge> 8) (rev [0..<12])))"
proof -
  have "getESliceStep cube
          = (\<lambda>st i. if ePerm cube ! i \<ge> 8
                    then (fst st + binomial (int i) (snd st), snd st - 1) else st)"
    by (intro ext) (simp add: getESliceStep_def split: prod.splits)
  then show ?thesis
    by (simp add: getESlice_def foldl_filter)
qed

lemma valid_ePerm:
  assumes "isValidCube cube"
  shows "mset (ePerm cube) = mset [0..<12]" "length (ePerm cube) = 12"
    "\<And>i. i < 12 \<Longrightarrow> ePerm cube ! i < 12"
proof -
  from assms have "isValidPermutation (ePerm cube) 12"
    by (simp add: isValidCube_def split: if_splits)
  then show m: "mset (ePerm cube) = mset [0..<12]" and l: "length (ePerm cube) = 12"
    by (simp_all add: isValidPermutation_mset [symmetric] isValidPermutation_iff del: mset_upt)
  fix i :: nat assume "i < 12"
  with l have "ePerm cube ! i \<in> set (ePerm cube)"
    by simp
  also have "set (ePerm cube) = set [0..<12]"
    using m by (rule mset_eq_setD)
  finally show "ePerm cube ! i < 12"
    by simp
qed

lemma eslicePositions_valid:
  assumes "isValidCube cube"
  shows "eslicePositions cube = filter (\<lambda>i. ePerm cube ! i \<ge> 8) (rev [0..<12])"
  unfolding eslicePositions_def
proof (rule filter_cong [OF refl])
  fix i assume "i \<in> set (rev [0..<12])"
  then have "ePerm cube ! i < 12"
    using valid_ePerm(3) [OF assms] by simp
  then show "(ePerm cube ! i \<in> set E_EDGES) = (8 \<le> ePerm cube ! i)"
    by (auto simp: E_EDGES_def)
qed

lemma eslicePositions_shape:
  assumes "isValidCube cube"
  obtains a b c d where "eslicePositions cube = [a, b, c, d]" "a < 12" "b < a" "c < b" "d < c"
proof -
  let ?P = "\<lambda>i. ePerm cube ! i \<ge> 8"
  let ?ps = "filter ?P (rev [0..<12])"
  note e = valid_ePerm [OF assms]
  have "length ?ps = length (filter ?P [0..<12])"
    by (rule length_filter_mset) simp
  also have "\<dots> = length (filter (\<lambda>v. v \<ge> 8) (map (\<lambda>i. ePerm cube ! i) [0..<12]))"
    by (simp add: filter_map comp_def)
  also have "map (\<lambda>i. ePerm cube ! i) [0..<12] = ePerm cube"
    using e(2) by (metis map_nth)
  also have "length (filter (\<lambda>v. v \<ge> 8) (ePerm cube)) = length (filter (\<lambda>v. v \<ge> 8) [0..<12])"
    using e(1) by (rule length_filter_mset)
  also have "\<dots> = 4"
    by (simp add: upt_12)
  finally have "length ?ps = 4" .
  then obtain a b c d where abcd: "?ps = [a, b, c, d]"
    by (auto simp: length_Suc_conv eval_nat_numeral)
  have "sorted_wrt (>) (rev [0..<12])"
    by (simp add: sorted_wrt_rev)
  then have "sorted_wrt (>) ?ps"
    by (rule sorted_wrt_filter)
  then have o: "b < a" "c < b" "d < c"
    by (simp_all add: abcd)
  have "a \<in> set ?ps"
    by (simp add: abcd)
  then have "a < 12"
    by simp
  with abcd o show ?thesis
    by (intro that [of a b c d]) (simp_all add: eslicePositions_valid [OF assms])
qed

lemma in_reverseLexEnumeration:
  assumes "a < 12" "b < a" "c < b" "d < c"
  shows "[a, b, c, d] \<in> set reverseLexEnumeration"
  apply (simp add: reverseLexEnumeration_def)
  apply (rule bexI [of _ a])
   apply (rule bexI [of _ b])
    apply (rule bexI [of _ c])
  using assms apply simp_all
  done

lemma reverseLexEnumeration_index:
  assumes "ps \<in> set reverseLexEnumeration"
  obtains k where "k < 495" "reverseLexEnumeration ! k = ps"
    "494 - fst (foldl (\<lambda>st i. (fst st + binomial (int i) (snd st), snd st - 1)) (0, 4) ps) = int k"
proof -
  let ?f = "\<lambda>ps. 494 - fst (foldl (\<lambda>st i. (fst st + binomial (int i) (snd st), snd st - 1)) (0, 4) ps)"
  have "length (map ?f reverseLexEnumeration) = length (map int [0..<495])"
    by (simp only: enumeration_coordinates)
  then have l: "length reverseLexEnumeration = 495"
    by simp
  from assms obtain k where k: "k < length reverseLexEnumeration" "reverseLexEnumeration ! k = ps"
    by (auto simp: in_set_conv_nth)
  have "map ?f reverseLexEnumeration ! k = map int [0..<495] ! k"
    by (simp only: enumeration_coordinates)
  with k l have "?f ps = int k"
    by simp
  with k l show ?thesis
    by (intro that [of k]) simp_all
qed

lemma reverseLexEnumeration_facts:
  "length reverseLexEnumeration = 495" "distinct reverseLexEnumeration"
proof -
  let ?f = "\<lambda>ps. 494 - fst (foldl (\<lambda>st i. (fst st + binomial (int i) (snd st), snd st - 1)) (0, 4) ps)"
  have "length (map ?f reverseLexEnumeration) = length (map int [0..<495])"
    by (simp only: enumeration_coordinates)
  then show "length reverseLexEnumeration = 495"
    by simp
  have "distinct (map int [0..<495])"
    by (simp add: distinct_map)
  then have "distinct (map ?f reverseLexEnumeration)"
    by (simp only: enumeration_coordinates)
  then show "distinct reverseLexEnumeration"
    by (simp add: distinct_map)
qed

lemma isValidCube_solvedCube: "isValidCube solvedCube"
  using isValidPermutation_identity parityOfPermutation_identity
  by (simp add: isValidCube_def solvedCube_def)

section \<open>Claims\<close>

text \<open>
  C8.  For every cube of the documented shape and every one of the 18 move operators
  \<open>m\<close> (taken by its index 0..17), applying \<open>m\<close> and then \<open>invertMove m\<close> gives the
  cube back.
\<close>

theorem applyMove_then_invertMove:
  assumes "cubeShape c" and "m < 18"
  shows "applyMove (applyMove c (getMoveByIndex m)) (invertMove (getMoveByIndex m)) = c"
  unfolding getMoveByIndex_def using assms(1) by (rule applyMove_invertMove_key)

theorem applyMove_then_invertMove_witness:
  "cubeShape solvedCube \<and> (3::nat) < 18 \<and>
   applyMove (applyMove solvedCube (getMoveByIndex 3)) (invertMove (getMoveByIndex 3)) = solvedCube"
proof -
  have s: "cubeShape solvedCube"
    by (simp add: cubeShape_def solvedCube_def)
  have m: "(3::nat) < 18"
    by simp
  from applyMove_then_invertMove [OF s m] s m show ?thesis
    by simp
qed

text \<open>
  C6.  The phase-2 move set is the list of indices 0, 1, 2, 9, 10, 11, 4, 13, 7, 16; under
  \<open>MOVE_KEYS\<close> these are U, U2, U', D, D2, D', R2, L2, F2, B2; and each of these moves maps
  a cube that passes \<open>isInG1\<close> to a cube that passes \<open>isInG1\<close>.
\<close>

theorem PHASE2_MOVES_stabilise_G1:
  "PHASE2_MOVES = [0, 1, 2, 9, 10, 11, 4, 13, 7, 16] \<and>
   map (\<lambda>i. MOVE_KEYS ! i) PHASE2_MOVES
     = [Key_U, Key_U2, Key_Up, Key_D, Key_D2, Key_Dp, Key_R2, Key_L2, Key_F2, Key_B2] \<and>
   (\<forall>cube m. isInG1 cube \<longrightarrow> m \<in> set PHASE2_MOVES \<longrightarrow>
      isInG1 (applyMove cube (getMoveByIndex m)))"
proof (intro conjI allI impI)
  show "PHASE2_MOVES = [0, 1, 2, 9, 10, 11, 4, 13, 7, 16]"
    by (simp add: PHASE2_MOVES_def)
  show k: "map (\<lambda>i. MOVE_KEYS ! i) PHASE2_MOVES
     = [Key_U, Key_U2, Key_Up, Key_D, Key_D2, Key_Dp, Key_R2, Key_L2, Key_F2, Key_B2]"
    by (simp add: PHASE2_MOVES_def MOVE_KEYS_def)
  fix cube m assume g: "isInG1 cube" and m: "m \<in> set PHASE2_MOVES"
  from m have "MOVE_KEYS ! m \<in> set (map (\<lambda>i. MOVE_KEYS ! i) PHASE2_MOVES)"
    by simp
  then have "MOVE_KEYS ! m \<in> {Key_U, Key_U2, Key_Up, Key_D, Key_D2, Key_Dp, Key_R2, Key_L2, Key_F2, Key_B2}"
    unfolding k by simp
  with g show "isInG1 (applyMove cube (getMoveByIndex m))"
    unfolding getMoveByIndex_def by (rule isInG1_applyMove_key)
qed

theorem PHASE2_MOVES_stabilise_G1_witness:
  "isInG1 solvedCube \<and> 4 \<in> set PHASE2_MOVES \<and>
   isInG1 (applyMove solvedCube (getMoveByIndex 4))"
proof -
  have a: "isInG1 solvedCube"
    by (simp add: isInG1_def solvedCube_def js_nth_def E_EDGES_def upt_12)
  have b: "4 \<in> set PHASE2_MOVES"
    by (simp add: PHASE2_MOVES_def)
  from PHASE2_MOVES_stabilise_G1 a b show ?thesis
    by blast
qed

text \<open>
  C5.  The phase-1 search at the failing input.  The cube \<open>twistedCornerCube\<close> has the
  phase-1 coordinate \<open>eo = 0\<close>, \<open>co = 1215\<close>, \<open>eslice = 0\<close>; started there, \<open>searchPhase1\<close>
  returns at once with the empty move sequence (depth 0, no node searched), whatever the
  tables hold and whatever the depth cap is, although the \<open>co\<close> component is not 0.  The
  goal test reads \<open>eo\<close> and \<open>eslice\<close> only.
\<close>

theorem searchPhase1_twisted_corners:
  "getPhase1Coord twistedCornerCube = \<lparr>eo = Some 0, co = Some 1215, eslice = Some 0\<rparr> \<and>
   searchPhase1 g elapsed \<lparr>eo = Some 0, co = Some 1215, eslice = Some 0\<rparr> maxDepth
     = Inr (Some \<lparr>solution = [], depth = 0, nodesSearched = 0, timeMs = elapsed\<rparr>)"
proof
  show "getPhase1Coord twistedCornerCube
          = \<lparr>eo = Some 0, co = Some 1215, eslice = Some 0\<rparr>"
    by (simp add: getPhase1Coord_twistedCornerCube)
  show "searchPhase1 g elapsed \<lparr>eo = Some 0, co = Some 1215, eslice = Some 0\<rparr> maxDepth
          = Inr (Some \<lparr>solution = [], depth = 0, nodesSearched = 0, timeMs = elapsed\<rparr>)"
    by (simp add: searchPhase1_def)
qed

text \<open>
  C9.  Two runs of \<open>solve\<close> on equal cubes, with configurations that agree on the two
  per-phase depth caps, both return, and they return the same solution, the same scramble
  and the same phase-1 and phase-2 move sequences (and the same success flag and error).
  The second run may start from the same solver object, module state and cache directory
  as the first, or from the state the first run left behind; the clock readings and the
  other configuration fields are free.
\<close>

theorem solve_deterministic:
  assumes "maxPhase1Depth cfg1 = maxPhase1Depth cfg2"
    and "maxPhase2Depth cfg1 = maxPhase2Depth cfg2"
    and "cubesEqual cube1 cube2"
  shows "\<exists>run1 fresh again.
           solve clk1 rt (solver\<lparr>config := cfg1\<rparr>) cube1 = Inr run1 \<and>
           solve clk2 rt (solver\<lparr>config := cfg2\<rparr>) cube2 = Inr fresh \<and>
           solve clk3 (snd (snd run1)) ((fst (snd run1))\<lparr>config := cfg2\<rparr>) cube2 = Inr again \<and>
           answer (fst fresh) = answer (fst run1) \<and> answer (fst again) = answer (fst run1)"
proof -
  from assms(3) have c: "cube1 = cube2"
    by (simp add: cubesEqual_eq)
  let ?s1 = "solver\<lparr>config := cfg1\<rparr>" and ?s2 = "solver\<lparr>config := cfg2\<rparr>"
  from solve_Inr [of clk1 rt ?s1 cube2] obtain rt1 where r1: "solve clk1 rt ?s1 cube2
        = Inr (solveBody (config ?s1) (globals rt1) clk1 cube2, ?s1\<lparr>initialized := True\<rparr>, rt1)"
    and i1: "initialized ?s1 \<Longrightarrow> rt1 = rt"
    and n1: "\<not> initialized ?s1 \<Longrightarrow> initializePruningTables rt = Inr rt1"
    by blast
  from solve_Inr [of clk2 rt ?s2 cube2] obtain rt2 where r2: "solve clk2 rt ?s2 cube2
        = Inr (solveBody (config ?s2) (globals rt2) clk2 cube2, ?s2\<lparr>initialized := True\<rparr>, rt2)"
    and i2: "initialized ?s2 \<Longrightarrow> rt2 = rt"
    and n2: "\<not> initialized ?s2 \<Longrightarrow> initializePruningTables rt = Inr rt2"
    by blast
  let ?s3 = "?s1\<lparr>initialized := True\<rparr>\<lparr>config := cfg2\<rparr>"
  from solve_Inr [of clk3 rt1 ?s3 cube2] obtain rt3 where r3: "solve clk3 rt1 ?s3 cube2
        = Inr (solveBody (config ?s3) (globals rt3) clk3 cube2, ?s3\<lparr>initialized := True\<rparr>, rt3)"
    and i3: "initialized ?s3 \<Longrightarrow> rt3 = rt1"
    by blast
  have e2: "rt2 = rt1"
    using i1 i2 n1 n2 by (cases "initialized solver") simp_all
  have e3: "rt3 = rt1"
    using i3 by simp
  have a2: "answer (solveBody cfg2 (globals rt1) clk2 cube2)
              = answer (solveBody cfg1 (globals rt1) clk1 cube2)"
    using assms(1,2) by (intro solveBody_answer) simp_all
  have a3: "answer (solveBody cfg2 (globals rt1) clk3 cube2)
              = answer (solveBody cfg1 (globals rt1) clk1 cube2)"
    using assms(1,2) by (intro solveBody_answer) simp_all
  show ?thesis
    unfolding c using r1 r2 r3 a2 a3 by (simp add: e2 e3)
qed

theorem solve_deterministic_witness:
  "maxPhase1Depth DEFAULT_CONFIG = maxPhase1Depth (DEFAULT_CONFIG\<lparr>verbose := True\<rparr>) \<and>
   maxPhase2Depth DEFAULT_CONFIG = maxPhase2Depth (DEFAULT_CONFIG\<lparr>verbose := True\<rparr>) \<and>
   cubesEqual flippedEdgeCube flippedEdgeCube \<and>
   (\<exists>run1 fresh.
      solve zeroClock freshRuntime (freshSolver\<lparr>config := DEFAULT_CONFIG\<rparr>) flippedEdgeCube
        = Inr run1 \<and>
      solve (zeroClock\<lparr>solveElapsed := 7\<rparr>) freshRuntime
        (freshSolver\<lparr>config := DEFAULT_CONFIG\<lparr>verbose := True\<rparr>\<rparr>) flippedEdgeCube = Inr fresh \<and>
      answer (fst fresh) = answer (fst run1))"
proof -
  have h1: "maxPhase1Depth DEFAULT_CONFIG = maxPhase1Depth (DEFAULT_CONFIG\<lparr>verbose := True\<rparr>)"
    by simp
  have h2: "maxPhase2Depth DEFAULT_CONFIG = maxPhase2Depth (DEFAULT_CONFIG\<lparr>verbose := True\<rparr>)"
    by simp
  have h3: "cubesEqual flippedEdgeCube flippedEdgeCube"
    by (simp add: cubesEqual_def)
  from solve_deterministic [OF h1 h2 h3, of zeroClock freshRuntime freshSolver
      "zeroClock\<lparr>solveElapsed := 7\<rparr>" zeroClock] h1 h2 h3
  show ?thesis
    by blast
qed

text \<open>
  C3.  \<open>solve\<close> does not validate its input.  For every cube of the documented shape that
  breaks invariant 1, 3 or 4 (a permutation array that is no permutation, a corner
  orientation sum that is not 0 modulo 3, an edge orientation sum that is odd), \<open>solve\<close>
  returns, the result is unsuccessful and carries one of the solver's own errors.
\<close>

theorem solve_fails_on_invalid_cube:
  assumes "cubeShape cube"
    and "\<not> isValidPermutation (cPerm cube) 8 \<or> \<not> isValidPermutation (ePerm cube) 12 \<or>
         sum_list (cOri cube) mod 3 \<noteq> 0 \<or> sum_list (eOri cube) mod 2 \<noteq> 0"
  shows "\<exists>r. solve clk rt solver cube = Inr r \<and> \<not> success (fst r) \<and> error (fst r) \<noteq> None"
proof -
  obtain rt' where r: "solve clk rt solver cube
      = Inr (solveBody (config solver) (globals rt') clk cube, solver\<lparr>initialized := True\<rparr>, rt')"
    using solve_Inr [of clk rt solver cube] by blast
  have len: "length (cPerm cube) = 8" "length (cOri cube) = 8" "length (ePerm cube) = 12"
    "length (eOri cube) = 12"
    using assms(1) by (simp_all add: cubeShape_def)
  have n: "\<not> success (solveBody (config solver) (globals rt') clk cube)"
  proof
    assume "success (solveBody (config solver) (globals rt') clk cube)"
    from solveBody_success_invariants [OF this len] assms(2) show False
      by simp
  qed
  with solveBody_error [of "config solver" "globals rt'" clk cube]
  have "error (solveBody (config solver) (globals rt') clk cube) \<noteq> None"
    by blast
  with n r show ?thesis
    by simp
qed

theorem solve_fails_on_invalid_cube_witness:
  "cubeShape flippedEdgeCube \<and> sum_list (eOri flippedEdgeCube) mod 2 \<noteq> 0 \<and>
   (\<exists>r. solve zeroClock freshRuntime freshSolver flippedEdgeCube = Inr r \<and>
        \<not> success (fst r) \<and> error (fst r) \<noteq> None)"
proof -
  have a: "cubeShape flippedEdgeCube"
    by (rule flippedEdgeCube_facts)
  have b: "sum_list (eOri flippedEdgeCube) mod 2 \<noteq> 0"
    by (simp add: flippedEdgeCube_facts)
  then have c: "\<not> isValidPermutation (cPerm flippedEdgeCube) 8 \<or>
         \<not> isValidPermutation (ePerm flippedEdgeCube) 12 \<or>
         sum_list (cOri flippedEdgeCube) mod 3 \<noteq> 0 \<or> sum_list (eOri flippedEdgeCube) mod 2 \<noteq> 0"
    by blast
  from solve_fails_on_invalid_cube [OF a c, of zeroClock freshRuntime freshSolver] a b
  show ?thesis
    by blast
qed

text \<open>
  The claim as first stated asks for an \<open>InvalidInput\<close> error and no search.  On the solved
  cube with the edge of slot 0 flipped, which \<open>isValidCube\<close> rejects, a freshly loaded
  solver with the default configuration returns an unsuccessful result whose error is
  the failure of the phase-1 search at depth 18 or the failure to reach G1 after it.
\<close>

theorem solve_flippedEdgeCube_counterexample:
  "\<not> isValidCube flippedEdgeCube \<and>
   \<not> isl (solve zeroClock freshRuntime freshSolver flippedEdgeCube) \<and>
   \<not> success (fst (projr (solve zeroClock freshRuntime freshSolver flippedEdgeCube))) \<and>
   (error (fst (projr (solve zeroClock freshRuntime freshSolver flippedEdgeCube)))
      = Some (Phase1SearchFailed 18) \<or>
    error (fst (projr (solve zeroClock freshRuntime freshSolver flippedEdgeCube)))
      = Some FailedToReachG1)"
proof -
  have f: "\<not> initialized freshSolver" "maxPhase1Depth (config freshSolver) = 18"
    by (simp_all add: freshSolver_def DEFAULT_CONFIG_def)
  from f(1) solve_Inr [of zeroClock freshRuntime freshSolver flippedEdgeCube]
  obtain rt' where r: "solve zeroClock freshRuntime freshSolver flippedEdgeCube
      = Inr (solveBody (config freshSolver) (globals rt') zeroClock flippedEdgeCube,
             freshSolver\<lparr>initialized := True\<rparr>, rt')"
    and i: "initializePruningTables freshRuntime = Inr rt'"
    by blast
  from i initializePruningTables_ready [of freshRuntime] have "tablesReady (globals rt')"
    by auto
  from solveBody_flippedEdgeCube [OF this, of "config freshSolver" zeroClock]
  show ?thesis
    unfolding r by (simp add: flippedEdgeCube_facts f(2))
qed

text \<open>
  C7.  For each of the six coordinates and every \<open>k\<close> below the coordinate's size, setting
  a solved cube to \<open>k\<close> with the coordinate's setter and reading the coordinate back with
  its getter gives \<open>k\<close>.
\<close>

theorem coordinate_roundtrip:
  "(\<forall>k < EO_SIZE. getEdgeOrientation (setEdgeOrientation solvedCube k) = k) \<and>
   (\<forall>k < CO_SIZE. getCornerOrientation (setCornerOrientation solvedCube k) = k) \<and>
   (\<forall>k < ESLICE_SIZE. getESlice (setESlice solvedCube (int k)) = int k) \<and>
   (\<forall>k < CP_SIZE. getCornerPermutation (setCornerPermutation solvedCube k) = k) \<and>
   (\<forall>k < UDEP_SIZE. getUDEdgePermutation (setUDEdgePermutation solvedCube k) = k) \<and>
   (\<forall>k < EP_SIZE. getESlicePermutation (setESlicePermutation solvedCube k) = k)"
  by (intro conjI allI impI getEdgeOrientation_roundtrip getCornerOrientation_roundtrip
      getESlice_roundtrip getCornerPermutation_roundtrip getUDEdgePermutation_roundtrip
      getESlicePermutation_roundtrip)

theorem coordinate_roundtrip_witness:
  "(1000::nat) < EO_SIZE \<and> getEdgeOrientation (setEdgeOrientation solvedCube 1000) = 1000 \<and>
   (2000::nat) < CO_SIZE \<and> getCornerOrientation (setCornerOrientation solvedCube 2000) = 2000 \<and>
   (300::nat) < ESLICE_SIZE \<and> getESlice (setESlice solvedCube (int 300)) = int 300 \<and>
   (40000::nat) < CP_SIZE \<and> getCornerPermutation (setCornerPermutation solvedCube 40000) = 40000 \<and>
   (12345::nat) < UDEP_SIZE \<and> getUDEdgePermutation (setUDEdgePermutation solvedCube 12345) = 12345 \<and>
   (23::nat) < EP_SIZE \<and> getESlicePermutation (setESlicePermutation solvedCube 23) = 23"
proof -
  have s: "(1000::nat) < EO_SIZE" "(2000::nat) < CO_SIZE" "(300::nat) < ESLICE_SIZE"
    "(40000::nat) < CP_SIZE" "(12345::nat) < UDEP_SIZE" "(23::nat) < EP_SIZE"
    by (simp_all add: EO_SIZE_def CO_SIZE_def ESLICE_SIZE_def CP_SIZE_def UDEP_SIZE_def EP_SIZE_def)
  from coordinate_roundtrip s show ?thesis
    by blast
qed

text \<open>
  C2.  For every cube that passes \<open>isValidCube\<close>, \<open>getESlice\<close> returns a value in [0, 495);
  that value is the index, in the reverse-lexicographic enumeration of the 495 sets of
  four edge slots, of the set of slots that hold the E-slice edges; and the value is 0
  exactly when these slots are 8, 9, 10 and 11.
\<close>

theorem getESlice_rank:
  assumes "isValidCube cube"
  shows "0 \<le> getESlice cube \<and> getESlice cube < int ESLICE_SIZE \<and>
         length reverseLexEnumeration = ESLICE_SIZE \<and> distinct reverseLexEnumeration \<and>
         reverseLexEnumeration ! nat (getESlice cube) = eslicePositions cube \<and>
         (getESlice cube = 0 \<longleftrightarrow> set (eslicePositions cube) = {8, 9, 10, 11})"
proof -
  obtain a b c d where p: "eslicePositions cube = [a, b, c, d]" and o: "a < 12" "b < a" "c < b" "d < c"
    using assms by (rule eslicePositions_shape)
  have "eslicePositions cube \<in> set reverseLexEnumeration"
    unfolding p using o by (rule in_reverseLexEnumeration)
  then obtain k where k: "k < 495" "reverseLexEnumeration ! k = eslicePositions cube"
    and "494 - fst (foldl (\<lambda>st i. (fst st + binomial (int i) (snd st), snd st - 1)) (0, 4)
                     (eslicePositions cube)) = int k"
    by (rule reverseLexEnumeration_index)
  then have g: "getESlice cube = int k"
    by (simp add: getESlice_filter eslicePositions_valid [OF assms])
  have top: "[11, 10, 9, 8] \<in> set reverseLexEnumeration"
    by (rule in_reverseLexEnumeration) simp_all
  then obtain j where j: "j < 495" "reverseLexEnumeration ! j = [11, 10, 9, 8]"
    and "494 - fst (foldl (\<lambda>st i. (fst st + binomial (int i) (snd st), snd st - 1)) (0, 4)
                     [11, 10, 9, 8]) = int j"
    by (rule reverseLexEnumeration_index)
  then have "j = 0"
    by (simp add: binomial_table)
  with j have first: "reverseLexEnumeration ! 0 = [11, 10, 9, 8]"
    by simp
  have zero: "k = 0 \<longleftrightarrow> set (eslicePositions cube) = {8, 9, 10, 11}"
  proof
    assume "k = 0"
    with k(2) first have "eslicePositions cube = [11, 10, 9, 8]"
      by simp
    then show "set (eslicePositions cube) = {8, 9, 10, 11}"
      by auto
  next
    assume s: "set (eslicePositions cube) = {8, 9, 10, 11}"
    have "a \<in> set (eslicePositions cube)" "d \<in> set (eslicePositions cube)"
      by (simp_all add: p)
    then have "a \<le> 11" "8 \<le> d"
      unfolding s by auto
    with o have "a = 11" "b = 10" "c = 9" "d = 8"
      by simp_all
    with p first k(2) have "reverseLexEnumeration ! k = reverseLexEnumeration ! 0"
      by simp
    then show "k = 0"
      using nth_eq_iff_index_eq [OF reverseLexEnumeration_facts(2), of k 0] k(1)
        reverseLexEnumeration_facts(1)
      by simp
  qed
  from g k zero reverseLexEnumeration_facts show ?thesis
    by (simp add: ESLICE_SIZE_def)
qed

theorem getESlice_rank_witness:
  "isValidCube solvedCube \<and> getESlice solvedCube = 0 \<and>
   reverseLexEnumeration ! nat (getESlice solvedCube) = eslicePositions solvedCube \<and>
   set (eslicePositions solvedCube) = {8, 9, 10, 11}"
proof -
  have e: "eslicePositions solvedCube = [11, 10, 9, 8]"
    by (simp add: eslicePositions_def solvedCube_def E_EDGES_def upt_12)
  from getESlice_rank [OF isValidCube_solvedCube] isValidCube_solvedCube show ?thesis
    by (auto simp: e)
qed

end
